theory Spec2Isabelle
  imports Complex_Main
begin

section \<open>The battery controller of \<open>battery_control.py\<close>\<close>

text \<open>
  A shallow embedding of the class \<open>BatteryController\<close>. A leading underscore of a
  Python name is written as the prefix \<open>priv_\<close> (\<open>_poll\<close> is \<open>priv_poll\<close>), and the
  class constants drop it (\<open>_CHARGE_THRESHOLD\<close> is \<open>CHARGE_THRESHOLD\<close>).
\<close>

subsection \<open>Data\<close>

text \<open>
  A naive \<open>datetime\<close> is its number of microseconds on the local time line, a
  \<open>timedelta\<close> a number of microseconds.
\<close>

type_synonym timestamp = int

text \<open>
  The values of the state fields as \<open>json.load\<close> returns them. The program itself
  writes booleans and strings only; the other JSON values (null, numbers, arrays,
  objects) are outside this model.
\<close>

datatype jvalue = JBool bool | JStr string

text \<open>The state is a Python \<open>dict\<close> from field names to values.\<close>

type_synonym status = "string \<rightharpoonup> jvalue"

text \<open>Python's truth value of an object, as \<open>if x:\<close> takes it.\<close>

fun truthy :: "jvalue \<Rightarrow> bool" where
  "truthy (JBool b) = b"
| "truthy (JStr s) = (s \<noteq> [])"

text \<open>
  The exceptions the program can raise. \<open>KeyError\<close> carries the missing key,
  \<open>RuntimeError\<close> is the one \<open>_ping_plug\<close> raises, \<open>PlugError\<close> stands for any
  exception of the \<open>kasa\<close> calls, \<open>AttributeError\<close> is \<open>.percent\<close> on the \<open>None\<close>
  that \<open>psutil.sensors_battery()\<close> returns on a host with no battery, \<open>Timeout\<close> is
  the exception of \<open>filelock\<close>.
\<close>

datatype error = KeyError string | TypeError | ValueError | AttributeError
  | RuntimeError | PlugError | Timeout

text \<open>
  What an invocation does to the outside, in order. \<open>Write\<close> carries the record
  written to the state file, \<open>Sleep\<close> is one \<open>poll_interval\<close> wait of the lock
  acquisition, \<open>Acquire\<close> and \<open>Release\<close> are the lock taken and given back.
\<close>

datatype event = Battery | Ping | TurnOn | TurnOff | Update | Write status
  | Sleep | Acquire | Release

text \<open>
  The outside world of the controller: the contents of \<open>_STATE_FILENAME\<close> (\<open>None\<close>
  when the file does not exist; the file holds the JSON text of a record, which
  \<open>json.load\<close> reads back as the record that \<open>json.dumps\<close> wrote) and the events so far.
  Errors of the file system, and of the command that \<open>_ssid\<close> runs, are not modelled.
\<close>

record world =
  state_file :: "status option"
  log :: "event list"

text \<open>
  What one invocation reads from its surroundings. An outcome that may differ from
  one attempt to the next (a ping, the lock file, the monotonic clock) is a function
  of the position in the event log at which it is observed.
  \<^item> \<open>ssid\<close>: the result of \<open>_ssid()\<close>, \<open>None\<close> when no network is associated;
  \<^item> \<open>now\<close>: \<open>datetime.now()\<close> as \<open>_poll\<close> reads it; \<open>op_now\<close>: as the calling
    operation reads it;
  \<^item> \<open>battery\<close>: \<open>psutil.sensors_battery()\<close> as \<open>_poll\<close> reads it, \<open>sleep_battery\<close>
    as \<open>prepare_for_sleep\<close> reads it; \<open>Some b\<close> is a battery with \<open>percent = b\<close>;
  \<^item> \<open>ping\<close>: whether the ping process returns code 0;
  \<^item> \<open>switch_ok\<close>: whether the \<open>turn_on\<close>/\<open>turn_off\<close> call of the plug returns;
  \<^item> \<open>plug_update\<close>: \<open>None\<close> when \<open>plug.update()\<close> raises, else \<open>plug.is_on\<close>;
  \<^item> \<open>lock_held\<close>: whether the lock file exists (another invocation holds it);
  \<^item> \<open>perf_counter\<close>: the monotonic clock of \<open>filelock\<close>, in seconds;
  \<^item> \<open>fromisoformat\<close>, \<open>isoformat\<close>: the two library functions of \<open>datetime\<close>.
    \<open>fromisoformat s = None\<close> when \<open>s\<close> is not the ISO 8601 form of a naive
    \<open>datetime\<close>: the call raises \<open>ValueError\<close> (for an offset-aware result the
    comparison with the naive \<open>now\<close> on the next source line raises instead, with
    nothing done in between).
\<close>

record env =
  ssid :: "string option"
  now :: timestamp
  op_now :: timestamp
  battery :: "real option"
  sleep_battery :: "real option"
  ping :: "nat \<Rightarrow> bool"
  switch_ok :: bool
  plug_update :: "bool option"
  lock_held :: "nat \<Rightarrow> bool"
  perf_counter :: "nat \<Rightarrow> real"
  fromisoformat :: "string \<Rightarrow> timestamp option"
  isoformat :: "timestamp \<Rightarrow> string"

subsection \<open>Constants\<close>

definition DISCHARGE_THRESHOLD :: real where
  "DISCHARGE_THRESHOLD = 50"

definition CHARGE_THRESHOLD :: real where
  "CHARGE_THRESHOLD = 75"

definition SLEEP_CHARGE_THRESHOLD :: real where
  "SLEEP_CHARGE_THRESHOLD = 30"

definition MANUAL_OVERRIDE_INTERVAL :: int where
  \<comment> \<open>\<open>timedelta(days=1)\<close>\<close>
  "MANUAL_OVERRIDE_INTERVAL = 86400000000"

definition SLEEP_INTERVAL :: int where
  \<comment> \<open>\<open>timedelta(minutes=2)\<close>\<close>
  "SLEEP_INTERVAL = 120000000"

definition HOME_SSID :: string where
  "HOME_SSID = ''HomeSSID''"

subsection \<open>The state file\<close>

definition emit :: "event \<Rightarrow> world \<Rightarrow> world" where
  "emit ev w = w\<lparr>log := log w @ [ev]\<rparr>"

definition priv_default_state :: status where
  "priv_default_state = [''currentState'' \<mapsto> JBool True, ''defaultState'' \<mapsto> JBool True]"

definition priv_read_state :: "world \<Rightarrow> status" where
  "priv_read_state w =
     (case state_file w of None \<Rightarrow> priv_default_state | Some st \<Rightarrow> st)"

definition priv_write_state :: "status \<Rightarrow> world \<Rightarrow> world" where
  "priv_write_state st w = emit (Write st) (w\<lparr>state_file := Some st\<rparr>)"

subsection \<open>The smart plug\<close>

text \<open>
  \<open>_ping_plug\<close>: up to three pings (\<open>for i in range(3)\<close>), returning at the first
  that succeeds. \<open>ping_attempts\<close> is the loop, its first argument the number of
  attempts left, its result whether one succeeded.
\<close>

fun ping_attempts :: "nat \<Rightarrow> env \<Rightarrow> world \<Rightarrow> bool \<times> world" where
  "ping_attempts 0 e w = (False, w)"
| "ping_attempts (Suc n) e w =
     (if ping e (length (log w)) then (True, emit Ping w)
      else ping_attempts n e (emit Ping w))"

definition priv_ping_plug :: "env \<Rightarrow> world \<Rightarrow> error option \<times> world" where
  "priv_ping_plug e w =
     (case ping_attempts 3 e w of
        (True, w') \<Rightarrow> (None, w')
      | (False, w') \<Rightarrow> (Some RuntimeError, w'))"

definition priv_turn_off :: "env \<Rightarrow> world \<Rightarrow> error option \<times> world" where
  "priv_turn_off e w =
     (case priv_ping_plug e w of
        (Some err, w') \<Rightarrow> (Some err, w')
      | (None, w') \<Rightarrow> (if switch_ok e then None else Some PlugError, emit TurnOff w'))"

definition priv_turn_on :: "env \<Rightarrow> world \<Rightarrow> error option \<times> world" where
  "priv_turn_on e w =
     (case priv_ping_plug e w of
        (Some err, w') \<Rightarrow> (Some err, w')
      | (None, w') \<Rightarrow> (if switch_ok e then None else Some PlugError, emit TurnOn w'))"

subsection \<open>The reconciliation step \<open>_poll\<close>\<close>

text \<open>
  Reading a timestamp field: \<open>datetime.fromisoformat(status[key])\<close>. A missing key
  raises \<open>KeyError\<close>, a value that is not a string \<open>TypeError\<close>.
\<close>

definition read_time :: "env \<Rightarrow> status \<Rightarrow> string \<Rightarrow> error + timestamp" where
  "read_time e st key =
     (case st key of
        None \<Rightarrow> Inl (KeyError key)
      | Some (JBool b) \<Rightarrow> Inl TypeError
      | Some (JStr s) \<Rightarrow>
          (case fromisoformat e s of None \<Rightarrow> Inl ValueError | Some t \<Rightarrow> Inr t))"

text \<open>Source lines 225 to 230: an expired manual override is discarded.\<close>

definition poll_expire_override :: "env \<Rightarrow> status \<Rightarrow> error + status" where
  "poll_expire_override e st =
     (if ''manualOverrideState'' \<in> dom st then
        (case read_time e st ''manualOverrideStateExpiresAt'' of
           Inl err \<Rightarrow> Inl err
         | Inr expires_at \<Rightarrow>
             if now e \<ge> expires_at
             then Inr (st(''manualOverrideState'' := None,
                          ''manualOverrideStateExpiresAt'' := None))
             else Inr st)
      else Inr st)"

text \<open>Source lines 231 to 234: an expired \<open>keepStateUntil\<close> is discarded.\<close>

definition poll_expire_keep :: "env \<Rightarrow> status \<Rightarrow> error + status" where
  "poll_expire_keep e st =
     (if ''keepStateUntil'' \<in> dom st then
        (case read_time e st ''keepStateUntil'' of
           Inl err \<Rightarrow> Inl err
         | Inr keep_state_until \<Rightarrow>
             if now e \<ge> keep_state_until
             then Inr (st(''keepStateUntil'' := None))
             else Inr st)
      else Inr st)"

text \<open>
  Source lines 236 to 242: with no \<open>keepStateUntil\<close>, the battery is read and
  \<open>defaultState\<close> follows the two thresholds. The battery is read before
  \<open>status['defaultState']\<close> is.
\<close>

definition poll_hysteresis :: "env \<Rightarrow> status \<Rightarrow> world \<Rightarrow> (error + status) \<times> world" where
  "poll_hysteresis e st w =
     (if ''keepStateUntil'' \<notin> dom st then
        (case battery e of
           None \<Rightarrow> (Inl AttributeError, emit Battery w)
         | Some b \<Rightarrow>
             (case st ''defaultState'' of
                None \<Rightarrow> (Inl (KeyError ''defaultState''), emit Battery w)
              | Some v \<Rightarrow>
                  if truthy v then
                    (if b \<ge> CHARGE_THRESHOLD
                     then (Inr (st(''defaultState'' \<mapsto> JBool False)), emit Battery w)
                     else (Inr st, emit Battery w))
                  else if b \<le> DISCHARGE_THRESHOLD
                  then (Inr (st(''defaultState'' \<mapsto> JBool True)), emit Battery w)
                  else (Inr st, emit Battery w)))
      else (Inr st, w))"

text \<open>Source lines 244 to 247: the state the plug should be in.\<close>

definition poll_desired_state :: "status \<Rightarrow> error + jvalue" where
  "poll_desired_state st =
     (if ''manualOverrideState'' \<in> dom st then
        (case st ''manualOverrideState'' of
           None \<Rightarrow> Inl (KeyError ''manualOverrideState'')
         | Some v \<Rightarrow> Inr v)
      else
        (case st ''defaultState'' of
           None \<Rightarrow> Inl (KeyError ''defaultState'')
         | Some v \<Rightarrow> Inr v))"

text \<open>
  Source lines 249 to 254: the plug is switched when the desired state differs
  from \<open>currentState\<close>, and \<open>currentState\<close> is assigned after the call returned.
  Python's \<open>!=\<close> on two booleans or two strings is their inequality, and a boolean
  never equals a string.
\<close>

definition poll_switch :: "env \<Rightarrow> jvalue \<Rightarrow> status \<Rightarrow> world \<Rightarrow> (error + status) \<times> world" where
  "poll_switch e desired_state st w =
     (case st ''currentState'' of
        None \<Rightarrow> (Inl (KeyError ''currentState''), w)
      | Some cur \<Rightarrow>
          if desired_state \<noteq> cur then
            (case (if truthy desired_state then priv_turn_on e w else priv_turn_off e w) of
               (Some err, w') \<Rightarrow> (Inl err, w')
             | (None, w') \<Rightarrow> (Inr (st(''currentState'' \<mapsto> desired_state)), w'))
          else (Inr st, w))"

text \<open>
  Source lines 224 to 247 together: the two expiries, the hysteresis and the desired
  state. The result is the desired state or the exception raised, the dictionary as
  these lines leave it, and the world.
\<close>

definition poll_decide :: "env \<Rightarrow> status \<Rightarrow> world \<Rightarrow> (error + jvalue) \<times> status \<times> world" where
  "poll_decide e st w =
     (case poll_expire_override e st of
        Inl err \<Rightarrow> (Inl err, st, w)
      | Inr st1 \<Rightarrow>
     (case poll_expire_keep e st1 of
        Inl err \<Rightarrow> (Inl err, st1, w)
      | Inr st2 \<Rightarrow>
     (case poll_hysteresis e st2 w of
        (Inl err, w1) \<Rightarrow> (Inl err, st2, w1)
      | (Inr st3, w1) \<Rightarrow>
     (case poll_desired_state st3 of
        Inl err \<Rightarrow> (Inl err, st3, w1)
      | Inr desired_state \<Rightarrow> (Inr desired_state, st3, w1)))))"

text \<open>
  \<open>_poll(status)\<close>. The result is the exception raised, if any, the dictionary
  \<open>status\<close> as the call leaves it (it is changed in place), and the world.
\<close>

definition priv_poll :: "env \<Rightarrow> status \<Rightarrow> world \<Rightarrow> error option \<times> status \<times> world" where
  "priv_poll e st w =
     (if ssid e \<noteq> Some HOME_SSID then (None, st, priv_write_state st w)
      else
        (case poll_decide e st w of
           (Inl err, st3, w1) \<Rightarrow> (Some err, st3, w1)
         | (Inr desired_state, st3, w1) \<Rightarrow>
             (case poll_switch e desired_state st3 w1 of
                (Inl err, w2) \<Rightarrow> (Some err, st3, w2)
              | (Inr st4, w2) \<Rightarrow> (None, st4, priv_write_state st4 w2))))"

subsection \<open>The lock\<close>

text \<open>
  \<open>SoftFileLock\<close> belongs to the \<open>filelock\<close> library, not to this program; its
  acquisition is written here from the library's documented behaviour. A lock object
  carries a \<open>timeout\<close> in seconds, \<open>-1\<close> when the constructor is given none. Entering
  \<open>with lock:\<close> calls \<open>acquire()\<close>, which loops: when the lock file can be created
  the lock is held; otherwise, when \<open>0 <= timeout < perf_counter() - start_time\<close>,
  \<open>Timeout\<close> is raised; otherwise it sleeps one \<open>poll_interval\<close> and tries again. A
  negative timeout therefore waits for as long as the lock is held.
\<close>

datatype lock = SoftFileLock (timeout: real)

definition SoftFileLock_default_timeout :: real where
  "SoftFileLock_default_timeout = - 1"

partial_function (option) acquire_loop ::
  "env \<Rightarrow> real \<Rightarrow> real \<Rightarrow> world \<Rightarrow> (error option \<times> world) option" where
  "acquire_loop e tmo start_time w =
     (if \<not> lock_held e (length (log w)) then Some (None, emit Acquire w)
      else if 0 \<le> tmo \<and> tmo < perf_counter e (length (log w)) - start_time
      then Some (Some Timeout, w)
      else acquire_loop e tmo start_time (emit Sleep w))"

definition acquire :: "env \<Rightarrow> lock \<Rightarrow> world \<Rightarrow> (error option \<times> world) option" where
  "acquire e lk w = acquire_loop e (timeout lk) (perf_counter e (length (log w))) w"

text \<open>
  \<open>with lk: body\<close>. The lock is released on the way out, also when the body raised.
  \<open>None\<close> is an acquisition that never returns.
\<close>

definition with_lock ::
  "env \<Rightarrow> lock \<Rightarrow> (world \<Rightarrow> error option \<times> world) \<Rightarrow> world \<Rightarrow> (error option \<times> world) option" where
  "with_lock e lk body w =
     (case acquire e lk w of
        None \<Rightarrow> None
      | Some (Some err, w1) \<Rightarrow> Some (Some err, w1)
      | Some (None, w1) \<Rightarrow> (case body w1 of (r, w2) \<Rightarrow> Some (r, emit Release w2)))"

definition priv_lock :: lock where
  \<comment> \<open>\<open>SoftFileLock(_lock_filename(), timeout=30)\<close>\<close>
  "priv_lock = SoftFileLock 30"

definition priv_optimistic_lock :: lock where
  \<comment> \<open>\<open>SoftFileLock(_lock_filename())\<close>\<close>
  "priv_optimistic_lock = SoftFileLock SoftFileLock_default_timeout"

subsection \<open>The operations\<close>

text \<open>The body shared by all operations: \<open>_poll(status)\<close>, its dictionary dropped.\<close>

definition poll_body :: "env \<Rightarrow> status \<Rightarrow> world \<Rightarrow> error option \<times> world" where
  "poll_body e st w = (case priv_poll e st w of (r, st', w') \<Rightarrow> (r, w'))"

definition poll :: "env \<Rightarrow> world \<Rightarrow> (error option \<times> world) option" where
  "poll e w =
     with_lock e priv_optimistic_lock (\<lambda>w1. poll_body e (priv_read_state w1) w1) w"

definition enable_manual_override :: "env \<Rightarrow> world \<Rightarrow> (error option \<times> world) option" where
  "enable_manual_override e w =
     with_lock e priv_lock
       (\<lambda>w1. let st = priv_read_state w1;
                 expires_at = op_now e + MANUAL_OVERRIDE_INTERVAL
             in poll_body e
                  (st(''manualOverrideState'' \<mapsto> JBool True,
                      ''manualOverrideStateExpiresAt'' \<mapsto> JStr (isoformat e expires_at)))
                  w1) w"

definition disable_manual_override :: "env \<Rightarrow> world \<Rightarrow> (error option \<times> world) option" where
  "disable_manual_override e w =
     with_lock e priv_lock
       (\<lambda>w1. let st = priv_read_state w1
             in poll_body e
                  (st(''manualOverrideState'' := None,
                      ''manualOverrideStateExpiresAt'' := None))
                  w1) w"

definition prepare_for_sleep :: "env \<Rightarrow> world \<Rightarrow> (error option \<times> world) option" where
  "prepare_for_sleep e w =
     (case sleep_battery e of
        None \<Rightarrow> Some (Some AttributeError, emit Battery w)
      | Some b \<Rightarrow>
          with_lock e priv_lock
            (\<lambda>w1. let st = priv_read_state w1;
                      keep_state_until = op_now e + SLEEP_INTERVAL
                  in poll_body e
                       (st(''defaultState'' \<mapsto> JBool (b \<le> SLEEP_CHARGE_THRESHOLD),
                           ''keepStateUntil'' \<mapsto> JStr (isoformat e keep_state_until)))
                       w1)
            (emit Battery w))"

definition scan :: "env \<Rightarrow> world \<Rightarrow> (error option \<times> world) option" where
  "scan e w =
     (case priv_ping_plug e w of
        (Some err, w0) \<Rightarrow> Some (Some err, w0)
      | (None, w0) \<Rightarrow>
          (case plug_update e of
             None \<Rightarrow> Some (Some PlugError, emit Update w0)
           | Some is_on \<Rightarrow>
               with_lock e priv_lock
                 (\<lambda>w1. let st = priv_read_state w1
                       in poll_body e (st(''currentState'' \<mapsto> JBool is_on)) w1)
                 (emit Update w0)))"

text \<open>The operations that change the state, and the worlds they can lead to.\<close>

datatype operation = Poll | EnableOverride | DisableOverride | PrepareForSleep | Scan

fun run :: "operation \<Rightarrow> env \<Rightarrow> world \<Rightarrow> (error option \<times> world) option" where
  "run Poll = poll"
| "run EnableOverride = enable_manual_override"
| "run DisableOverride = disable_manual_override"
| "run PrepareForSleep = prepare_for_sleep"
| "run Scan = scan"

inductive reachable :: "world \<Rightarrow> bool" where
  initial: "reachable \<lparr>state_file = None, log = []\<rparr>"
| step: "reachable w \<Longrightarrow> run opn e w = Some (r, w') \<Longrightarrow> reachable w'"

subsection \<open>Notions used to state the properties\<close>

text \<open>The events an invocation added to the log.\<close>

definition new_events :: "world \<Rightarrow> world \<Rightarrow> event list" where
  "new_events w w' = drop (length (log w)) (log w')"

text \<open>
  The outlet driver is \<open>_turn_on\<close>/\<open>_turn_off\<close>: its pings and its switch command.
\<close>

fun is_driver_event :: "event \<Rightarrow> bool" where
  "is_driver_event Ping = True"
| "is_driver_event TurnOn = True"
| "is_driver_event TurnOff = True"
| "is_driver_event ev = False"

fun is_battery_event :: "event \<Rightarrow> bool" where
  "is_battery_event Battery = True"
| "is_battery_event ev = False"

fun is_write_event :: "event \<Rightarrow> bool" where
  "is_write_event (Write st) = True"
| "is_write_event ev = False"

text \<open>
  Whether an invocation that took the world from \<open>w\<close> to \<open>w'\<close> called the outlet
  driver, read the battery, wrote the state file.
\<close>

definition driver_invoked :: "world \<Rightarrow> world \<Rightarrow> bool" where
  "driver_invoked w w' = list_ex is_driver_event (new_events w w')"

definition battery_queried :: "world \<Rightarrow> world \<Rightarrow> bool" where
  "battery_queried w w' = list_ex is_battery_event (new_events w w')"

definition state_written :: "world \<Rightarrow> world \<Rightarrow> bool" where
  "state_written w w' = list_ex is_write_event (new_events w w')"

text \<open>
  The switch command \<open>_turn_on\<close>/\<open>_turn_off\<close> sends to the plug once a ping has
  succeeded, the command that a desired state calls for, and the events of the driver
  among those an invocation added, in order.
\<close>

fun is_switch_event :: "event \<Rightarrow> bool" where
  "is_switch_event TurnOn = True"
| "is_switch_event TurnOff = True"
| "is_switch_event ev = False"

definition switch_command :: "jvalue \<Rightarrow> event" where
  "switch_command desired_state = (if truthy desired_state then TurnOn else TurnOff)"

definition driver_events :: "world \<Rightarrow> world \<Rightarrow> event list" where
  "driver_events w w' = filter is_driver_event (new_events w w')"

text \<open>
  A keep-window is active: \<open>keepStateUntil\<close> holds a time that \<open>now\<close> has not reached.
\<close>

definition keep_window_active :: "env \<Rightarrow> status \<Rightarrow> bool" where
  "keep_window_active e st =
     (case read_time e st ''keepStateUntil'' of Inl err \<Rightarrow> False | Inr t \<Rightarrow> now e < t)"

text \<open>
  The override fields can be read: there is no \<open>manualOverrideState\<close>, or
  \<open>manualOverrideStateExpiresAt\<close> holds a time.
\<close>

definition override_readable :: "env \<Rightarrow> status \<Rightarrow> bool" where
  "override_readable e st =
     (case st ''manualOverrideState'' of
        None \<Rightarrow> True
      | Some m \<Rightarrow>
          (case read_time e st ''manualOverrideStateExpiresAt'' of
             Inl err \<Rightarrow> False
           | Inr t \<Rightarrow> True))"

text \<open>
  The reconciliation got as far as the driver: it returned, or the driver raised.
\<close>

definition reached_switch :: "error option \<Rightarrow> bool" where
  "reached_switch r = (r = None \<or> r = Some RuntimeError \<or> r = Some PlugError)"

text \<open>The value \<open>defaultState\<close> takes under the two thresholds.\<close>

definition hysteresis :: "jvalue \<Rightarrow> real \<Rightarrow> jvalue" where
  "hysteresis v b =
     (if truthy v then (if b \<ge> 75 then JBool False else v)
      else (if b \<le> 50 then JBool True else v))"

text \<open>The two override fields are both present or both absent.\<close>

definition paired :: "status \<Rightarrow> bool" where
  "paired st =
     (''manualOverrideState'' \<in> dom st \<longleftrightarrow> ''manualOverrideStateExpiresAt'' \<in> dom st)"

definition persisted_paired :: "world \<Rightarrow> bool" where
  "persisted_paired w = (case state_file w of None \<Rightarrow> True | Some st \<Rightarrow> paired st)"

subsection \<open>Example surroundings\<close>

text \<open>
  A host at home at 00:00:05 of day one, battery at 80 percent, the plug reachable
  and the lock free; \<open>datetime\<close> restricted to the three times the examples use.
\<close>

definition example_fromisoformat :: "string \<Rightarrow> timestamp option" where
  "example_fromisoformat =
     map_of [(''1970-01-01T00:00:10'', 10000000), (''1970-01-01T00:02:05'', 125000000),
             (''1970-01-02T00:00:05'', 86405000000)]"

definition example_isoformat :: "timestamp \<Rightarrow> string" where
  "example_isoformat t =
     (if t = 10000000 then ''1970-01-01T00:00:10''
      else if t = 125000000 then ''1970-01-01T00:02:05''
      else if t = 86405000000 then ''1970-01-02T00:00:05''
      else ''other'')"

definition home_env :: env where
  "home_env = \<lparr>ssid = Some ''HomeSSID'', now = 5000000, op_now = 5000000,
     battery = Some 80, sleep_battery = Some 80, ping = (\<lambda>i. True), switch_ok = True,
     plug_update = Some True, lock_held = (\<lambda>i. False), perf_counter = (\<lambda>i. 0),
     fromisoformat = example_fromisoformat, isoformat = example_isoformat\<rparr>"

text \<open>The same host with a plug that answers no ping.\<close>

definition unreachable_env :: env where
  "unreachable_env = home_env\<lparr>ping := (\<lambda>i. False)\<rparr>"

text \<open>
  A record with a manual override that expires the next day, and one pinned by a
  keep-window until 00:00:10.
\<close>

definition override_status :: status where
  "override_status =
     [''currentState'' \<mapsto> JBool False, ''defaultState'' \<mapsto> JBool False,
      ''manualOverrideState'' \<mapsto> JBool True,
      ''manualOverrideStateExpiresAt'' \<mapsto> JStr ''1970-01-02T00:00:05'']"

definition pinned_status :: status where
  "pinned_status =
     [''currentState'' \<mapsto> JBool True, ''defaultState'' \<mapsto> JBool True,
      ''keepStateUntil'' \<mapsto> JStr ''1970-01-01T00:00:10'']"

text \<open>The host away from home, on no network, two days later.\<close>

definition away_env :: env where
  "away_env = home_env\<lparr>ssid := None, now := 200000000000\<rparr>"

text \<open>
  The host at home while another invocation holds the lock, through the first three
  attempts to take it.
\<close>

definition busy_env :: env where
  "busy_env = home_env\<lparr>lock_held := (\<lambda>i. i < 3)\<rparr>"

text \<open>
  The records that \<open>prepare_for_sleep\<close> and \<open>enable_manual_override\<close> leave in the
  state file when run at home on a fresh installation.
\<close>

definition sleep_status :: status where
  "sleep_status =
     [''currentState'' \<mapsto> JBool False, ''defaultState'' \<mapsto> JBool False,
      ''keepStateUntil'' \<mapsto> JStr ''1970-01-01T00:02:05'']"

definition enabled_status :: status where
  "enabled_status =
     [''currentState'' \<mapsto> JBool True, ''defaultState'' \<mapsto> JBool False,
      ''manualOverrideState'' \<mapsto> JBool True,
      ''manualOverrideStateExpiresAt'' \<mapsto> JStr ''1970-01-02T00:00:05'']"

definition world0 :: world where
  "world0 = \<lparr>state_file = None, log = []\<rparr>"

section \<open>Properties\<close>

subsection \<open>What each step does to the world\<close>

lemma new_events_append: "log w' = log w @ evs \<Longrightarrow> new_events w w' = evs"
  by (simp add: new_events_def)

lemma ping_attempts_log:
  "ping_attempts n e w = (ok, w') \<Longrightarrow>
   state_file w' = state_file w \<and>
   (\<exists>k. log w' = log w @ replicate k Ping \<and> (0 < n \<longrightarrow> 0 < k))"
proof (induction n arbitrary: w)
  case 0
  then show ?case by simp
next
  case (Suc n)
  show ?case
  proof (cases "ping e (length (log w))")
    case True
    with Suc.prems have "w' = emit Ping w" by simp
    then show ?thesis by (auto simp: emit_def intro: exI[of _ 1])
  next
    case False
    with Suc.prems have "ping_attempts n e (emit Ping w) = (ok, w')" by simp
    from Suc.IH[OF this] obtain k
      where "state_file w' = state_file w" "log w' = log w @ Ping # replicate k Ping"
      by (auto simp: emit_def)
    then show ?thesis by (auto intro: exI[of _ "Suc k"])
  qed
qed

lemma priv_ping_plug_log:
  assumes "priv_ping_plug e w = (r, w')"
  shows "state_file w' = state_file w"
    and "\<exists>k. log w' = log w @ Ping # replicate k Ping"
    and "r = None \<or> r = Some RuntimeError"
proof -
  obtain ok where p: "ping_attempts 3 e w = (ok, w')"
    using assms by (auto simp: priv_ping_plug_def split: prod.splits bool.splits)
  from ping_attempts_log[OF p] obtain k
    where k: "state_file w' = state_file w" "log w' = log w @ replicate k Ping" "0 < k"
    by auto
  then obtain j where "k = Suc j" by (cases k) auto
  with k show "state_file w' = state_file w" "\<exists>k. log w' = log w @ Ping # replicate k Ping"
    by auto
  from assms show "r = None \<or> r = Some RuntimeError"
    by (auto simp: priv_ping_plug_def split: prod.splits bool.splits)
qed

lemma driver_call_log:
  assumes "(if on then priv_turn_on e w else priv_turn_off e w) = (r, w')"
  shows "state_file w' = state_file w"
    and "\<exists>evs. log w' = log w @ Ping # evs \<and> list_all is_driver_event evs"
    and "r = None \<or> r = Some RuntimeError \<or> r = Some PlugError"
proof -
  obtain r0 w0 where p: "priv_ping_plug e w = (r0, w0)" by (cases "priv_ping_plug e w")
  note facts = priv_ping_plug_log[OF p]
  from facts(2) obtain k where k: "log w0 = log w @ Ping # replicate k Ping" by blast
  from facts(3) have w': "w' = w0 \<or> w' = emit TurnOn w0 \<or> w' = emit TurnOff w0"
    using assms p by (auto simp: priv_turn_on_def priv_turn_off_def split: if_splits)
  with facts(1) show "state_file w' = state_file w" by (auto simp: emit_def)
  from w' k show "\<exists>evs. log w' = log w @ Ping # evs \<and> list_all is_driver_event evs"
    by (auto simp: emit_def list_all_iff)
  from facts(3) assms p show "r = None \<or> r = Some RuntimeError \<or> r = Some PlugError"
    by (auto simp: priv_turn_on_def priv_turn_off_def split: if_splits)
qed

lemma poll_switch_cases:
  assumes "poll_switch e desired st w = (res, w')"
  obtains
    (no_key) "st ''currentState'' = None" "res = Inl (KeyError ''currentState'')" "w' = w"
  | (same) "st ''currentState'' = Some desired" "res = Inr st" "w' = w"
  | (raised) cur err evs where "st ''currentState'' = Some cur" "desired \<noteq> cur"
      "res = Inl err" "err = RuntimeError \<or> err = PlugError"
      "state_file w' = state_file w" "log w' = log w @ Ping # evs"
      "list_all is_driver_event evs"
  | (switched) cur evs where "st ''currentState'' = Some cur" "desired \<noteq> cur"
      "res = Inr (st(''currentState'' \<mapsto> desired))"
      "state_file w' = state_file w" "log w' = log w @ Ping # evs"
      "list_all is_driver_event evs"
proof (cases "st ''currentState''")
  case None
  with assms no_key show ?thesis by (simp add: poll_switch_def)
next
  case (Some cur)
  show ?thesis
  proof (cases "desired = cur")
    case True
    with assms Some same show ?thesis by (simp add: poll_switch_def)
  next
    case False
    obtain r w1 where d: "(if truthy desired then priv_turn_on e w else priv_turn_off e w) = (r, w1)"
      by (cases "if truthy desired then priv_turn_on e w else priv_turn_off e w")
    note facts = driver_call_log[OF d]
    from assms Some False d have w1: "w' = w1"
      by (auto simp: poll_switch_def split: option.splits)
    show ?thesis
    proof (cases r)
      case None
      with assms Some False d have "res = Inr (st(''currentState'' \<mapsto> desired))"
        by (simp add: poll_switch_def)
      with switched Some False facts w1 show ?thesis by blast
    next
      case (Some err)
      with assms \<open>st ''currentState'' = Some cur\<close> False d have "res = Inl err"
        by (simp add: poll_switch_def)
      with raised \<open>st ''currentState'' = Some cur\<close> False facts w1 Some show ?thesis by blast
    qed
  qed
qed

subsection \<open>What each step does to the record\<close>

lemma read_time_err:
  "read_time e st k = Inl err \<Longrightarrow> err = KeyError k \<or> err = TypeError \<or> err = ValueError"
  by (auto simp: read_time_def split: option.splits jvalue.splits)

lemma read_time_dom: "read_time e st k = Inr t \<Longrightarrow> k \<in> dom st"
  by (auto simp: read_time_def split: option.splits)

lemma read_time_cong: "st' k = st k \<Longrightarrow> read_time e st' k = read_time e st k"
  by (simp add: read_time_def)

lemma expire_override_cases:
  assumes "poll_expire_override e st = res"
  obtains
    (absent) "st ''manualOverrideState'' = None" "res = Inr st"
  | (unreadable) err where "''manualOverrideState'' \<in> dom st"
      "read_time e st ''manualOverrideStateExpiresAt'' = Inl err" "res = Inl err"
  | (active) t where "''manualOverrideState'' \<in> dom st"
      "read_time e st ''manualOverrideStateExpiresAt'' = Inr t" "now e < t" "res = Inr st"
  | (expired) t where "''manualOverrideState'' \<in> dom st"
      "read_time e st ''manualOverrideStateExpiresAt'' = Inr t" "t \<le> now e"
      "res = Inr (st(''manualOverrideState'' := None, ''manualOverrideStateExpiresAt'' := None))"
  using assms unfolding poll_expire_override_def
  by (cases "read_time e st ''manualOverrideStateExpiresAt''")
     (auto simp: domIff split: if_splits)

lemma expire_keep_cases:
  assumes "poll_expire_keep e st = res"
  obtains
    (absent) "st ''keepStateUntil'' = None" "res = Inr st"
  | (unreadable) err where "''keepStateUntil'' \<in> dom st"
      "read_time e st ''keepStateUntil'' = Inl err" "res = Inl err"
  | (active) t where "read_time e st ''keepStateUntil'' = Inr t" "now e < t" "res = Inr st"
  | (expired) t where "read_time e st ''keepStateUntil'' = Inr t" "t \<le> now e"
      "res = Inr (st(''keepStateUntil'' := None))"
  using assms unfolding poll_expire_keep_def
  by (cases "read_time e st ''keepStateUntil''") (auto simp: domIff split: if_splits)

lemma expire_override_frame:
  "poll_expire_override e st = Inr st' \<Longrightarrow>
   k \<noteq> ''manualOverrideState'' \<Longrightarrow> k \<noteq> ''manualOverrideStateExpiresAt'' \<Longrightarrow> st' k = st k"
  by (erule expire_override_cases) auto

lemma expire_keep_frame:
  "poll_expire_keep e st = Inr st' \<Longrightarrow> k \<noteq> ''keepStateUntil'' \<Longrightarrow> st' k = st k"
  by (erule expire_keep_cases) auto

lemma hysteresis_world:
  "poll_hysteresis e st w = (res, w') \<Longrightarrow>
   w' = (if ''keepStateUntil'' \<in> dom st then w else emit Battery w)"
  by (auto simp: poll_hysteresis_def split: if_splits option.splits)

lemma hysteresis_pinned:
  "''keepStateUntil'' \<in> dom st \<Longrightarrow> poll_hysteresis e st w = (Inr st, w)"
  by (simp add: poll_hysteresis_def)

lemma hysteresis_frame:
  "poll_hysteresis e st w = (Inr st', w') \<Longrightarrow> k \<noteq> ''defaultState'' \<Longrightarrow> st' k = st k"
  by (auto simp: poll_hysteresis_def split: if_splits option.splits)

lemma hysteresis_err:
  "poll_hysteresis e st w = (Inl err, w') \<Longrightarrow>
   ''keepStateUntil'' \<notin> dom st \<and>
   (battery e = None \<and> err = AttributeError
    \<or> st ''defaultState'' = None \<and> err = KeyError ''defaultState'')"
  by (auto simp: poll_hysteresis_def split: if_splits option.splits)

lemma hysteresis_value:
  assumes "''keepStateUntil'' \<notin> dom st" and "battery e = Some b"
    and "st ''defaultState'' = Some v"
  shows "poll_hysteresis e st w = (Inr (st(''defaultState'' \<mapsto> hysteresis v b)), emit Battery w)"
proof -
  from assms(3) have "st(''defaultState'' \<mapsto> v) = st" by (rule map_upd_triv)
  with assms show ?thesis
    by (simp add: poll_hysteresis_def hysteresis_def CHARGE_THRESHOLD_def
        DISCHARGE_THRESHOLD_def)
qed

lemma desired_state_cases:
  assumes "poll_desired_state st = res"
  obtains
    (override) m where "st ''manualOverrideState'' = Some m" "res = Inr m"
  | (default) v where "st ''manualOverrideState'' = None" "st ''defaultState'' = Some v"
      "res = Inr v"
  | (no_key) "st ''manualOverrideState'' = None" "st ''defaultState'' = None"
      "res = Inl (KeyError ''defaultState'')"
  using assms unfolding poll_desired_state_def
  by (auto simp: domIff split: if_splits option.splits)

lemma poll_decide_cases:
  assumes "poll_decide e st w = (res, st3, w1)"
  obtains
    (override_raises) err where "poll_expire_override e st = Inl err"
      "res = Inl err" "st3 = st" "w1 = w"
  | (keep_raises) st1 err where "poll_expire_override e st = Inr st1"
      "poll_expire_keep e st1 = Inl err" "res = Inl err" "st3 = st1" "w1 = w"
  | (hysteresis_raises) st1 err where "poll_expire_override e st = Inr st1"
      "poll_expire_keep e st1 = Inr st3" "poll_hysteresis e st3 w = (Inl err, w1)"
      "res = Inl err"
  | (desired_raises) st1 st2 err where "poll_expire_override e st = Inr st1"
      "poll_expire_keep e st1 = Inr st2" "poll_hysteresis e st2 w = (Inr st3, w1)"
      "poll_desired_state st3 = Inl err" "res = Inl err"
  | (decided) st1 st2 desired where "poll_expire_override e st = Inr st1"
      "poll_expire_keep e st1 = Inr st2" "poll_hysteresis e st2 w = (Inr st3, w1)"
      "poll_desired_state st3 = Inr desired" "res = Inr desired"
proof (cases "poll_expire_override e st")
  case (Inl err)
  with assms have "res = Inl err" "st3 = st" "w1 = w" by (simp_all add: poll_decide_def)
  with Inl override_raises show ?thesis by blast
next
  case o: (Inr st1)
  show ?thesis
  proof (cases "poll_expire_keep e st1")
    case (Inl err)
    with assms o have "res = Inl err" "st3 = st1" "w1 = w"
      by (simp_all add: poll_decide_def)
    with o Inl keep_raises show ?thesis by blast
  next
    case k: (Inr st2)
    obtain hres w2 where h: "poll_hysteresis e st2 w = (hres, w2)"
      by (cases "poll_hysteresis e st2 w")
    show ?thesis
    proof (cases hres)
      case (Inl err)
      with assms o k h have "res = Inl err" "st3 = st2" "w1 = w2"
        by (simp_all add: poll_decide_def)
      with o k h Inl hysteresis_raises show ?thesis by blast
    next
      case h3: (Inr st3')
      show ?thesis
      proof (cases "poll_desired_state st3'")
        case (Inl err)
        with assms o k h h3 have "res = Inl err" "st3 = st3'" "w1 = w2"
          by (simp_all add: poll_decide_def)
        with o k h h3 Inl desired_raises show ?thesis by blast
      next
        case (Inr desired)
        with assms o k h h3 have "res = Inr desired" "st3 = st3'" "w1 = w2"
          by (simp_all add: poll_decide_def)
        with o k h h3 Inr decided show ?thesis by blast
      qed
    qed
  qed
qed

lemma priv_poll_home_cases:
  assumes "ssid e = Some HOME_SSID" and "priv_poll e st w = (r, st', w')"
  obtains
    (decide_raises) err where "poll_decide e st w = (Inl err, st', w')" "r = Some err"
  | (switch_raises) desired w1 err where "poll_decide e st w = (Inr desired, st', w1)"
      "poll_switch e desired st' w1 = (Inl err, w')" "r = Some err"
  | (returns) desired st3 w1 w2 where "poll_decide e st w = (Inr desired, st3, w1)"
      "poll_switch e desired st3 w1 = (Inr st', w2)" "r = None"
      "w' = priv_write_state st' w2"
proof -
  obtain res st3 w1 where d: "poll_decide e st w = (res, st3, w1)"
    by (cases "poll_decide e st w")
  show ?thesis
  proof (cases res)
    case (Inl err)
    with assms d have "r = Some err" "st' = st3" "w' = w1" by (simp_all add: priv_poll_def)
    with d Inl decide_raises show ?thesis by blast
  next
    case dd: (Inr desired)
    obtain sres w2 where s: "poll_switch e desired st3 w1 = (sres, w2)"
      by (cases "poll_switch e desired st3 w1")
    show ?thesis
    proof (cases sres)
      case (Inl err)
      with assms d dd s have "r = Some err" "st' = st3" "w' = w2"
        by (simp_all add: priv_poll_def)
      with d dd s Inl switch_raises show ?thesis by blast
    next
      case (Inr st4)
      with assms d dd s have "r = None" "st' = st4" "w' = priv_write_state st4 w2"
        by (auto simp: priv_poll_def)
      with d dd s Inr returns show ?thesis by blast
    qed
  qed
qed

lemma poll_decide_world:
  assumes "poll_decide e st w = (res, st3, w1)"
  shows "w1 = w \<or> w1 = emit Battery w"
  using assms
proof (cases rule: poll_decide_cases)
  case (hysteresis_raises st1 err)
  from hysteresis_world[OF this(3)] show ?thesis by auto
next
  case (desired_raises st1 st2 err)
  from hysteresis_world[OF this(3)] show ?thesis by auto
next
  case (decided st1 st2 desired)
  from hysteresis_world[OF this(3)] show ?thesis by auto
qed auto

lemma poll_decide_err:
  assumes "poll_decide e st w = (Inl err, st3, w1)"
  shows "\<not> reached_switch (Some err)"
  using assms
proof (cases rule: poll_decide_cases)
  case (override_raises err')
  then have "err' = err" by simp
  with override_raises(1) show ?thesis
    by (cases rule: expire_override_cases) (auto simp: reached_switch_def dest: read_time_err)
next
  case (keep_raises st1 err')
  then have "err' = err" by simp
  with keep_raises(2) show ?thesis
    by (cases rule: expire_keep_cases) (auto simp: reached_switch_def dest: read_time_err)
next
  case (hysteresis_raises st1 err')
  then have "err' = err" by simp
  with hysteresis_err[OF hysteresis_raises(3)] show ?thesis
    by (auto simp: reached_switch_def)
next
  case (desired_raises st1 st2 err')
  then have "err' = err" by simp
  with desired_raises(4) show ?thesis
    by (cases rule: desired_state_cases) (auto simp: reached_switch_def)
next
  case decided
  then show ?thesis by simp
qed

lemma poll_decide_default:
  assumes d: "poll_decide e st w = (Inr desired, st3, w1)"
    and keep: "\<not> keep_window_active e st"
    and b: "battery e = Some b"
    and v: "st ''defaultState'' = Some v"
  shows "st3 ''defaultState'' = Some (hysteresis v b)"
  using d
proof (cases rule: poll_decide_cases)
  case (decided st1 st2 desired')
  from expire_override_frame[OF decided(1)] v
  have 1: "st1 ''defaultState'' = Some v" "st1 ''keepStateUntil'' = st ''keepStateUntil''"
    by simp_all
  with keep have k1: "\<not> keep_window_active e st1"
    by (simp add: keep_window_active_def read_time_def)
  from decided(2) k1 have 2: "''keepStateUntil'' \<notin> dom st2"
    by (cases rule: expire_keep_cases) (auto simp: keep_window_active_def)
  from expire_keep_frame[OF decided(2)] 1 have 3: "st2 ''defaultState'' = Some v" by simp
  from hysteresis_value[OF 2 b 3, of w] decided(3) show ?thesis by simp
qed simp_all

lemma poll_decide_override:
  assumes d: "poll_decide e st w = (Inr desired, st3, w1)"
    and m: "st ''manualOverrideState'' = Some m"
    and t: "read_time e st ''manualOverrideStateExpiresAt'' = Inr t"
  shows "now e < t \<Longrightarrow> desired = m \<and> st3 ''manualOverrideState'' = Some m
           \<and> st3 ''manualOverrideStateExpiresAt'' = st ''manualOverrideStateExpiresAt''"
    and "t \<le> now e \<Longrightarrow> st3 ''manualOverrideState'' = None
           \<and> st3 ''manualOverrideStateExpiresAt'' = None
           \<and> st3 ''defaultState'' = Some desired"
proof -
  from d obtain st1 st2 where o: "poll_expire_override e st = Inr st1"
    and k: "poll_expire_keep e st1 = Inr st2"
    and h: "poll_hysteresis e st2 w = (Inr st3, w1)"
    and ds: "poll_desired_state st3 = Inr desired"
    by (cases rule: poll_decide_cases) auto
  have frame: "st3 ''manualOverrideState'' = st1 ''manualOverrideState''"
    "st3 ''manualOverrideStateExpiresAt'' = st1 ''manualOverrideStateExpiresAt''"
    using expire_keep_frame[OF k] hysteresis_frame[OF h] by simp_all
  {
    assume "now e < t"
    with o m t have "st1 = st" by (cases rule: expire_override_cases) auto
    with frame m have 3: "st3 ''manualOverrideState'' = Some m"
      "st3 ''manualOverrideStateExpiresAt'' = st ''manualOverrideStateExpiresAt''"
      by simp_all
    from ds 3(1) have "desired = m" by (cases rule: desired_state_cases) auto
    with 3 show "desired = m \<and> st3 ''manualOverrideState'' = Some m
           \<and> st3 ''manualOverrideStateExpiresAt'' = st ''manualOverrideStateExpiresAt''"
      by simp
  }
  {
    assume "t \<le> now e"
    with o m t have "st1 = st(''manualOverrideState'' := None,
        ''manualOverrideStateExpiresAt'' := None)"
      by (cases rule: expire_override_cases) auto
    with frame have 3: "st3 ''manualOverrideState'' = None"
      "st3 ''manualOverrideStateExpiresAt'' = None"
      by simp_all
    from ds 3(1) have "st3 ''defaultState'' = Some desired"
      by (cases rule: desired_state_cases) auto
    with 3 show "st3 ''manualOverrideState'' = None
           \<and> st3 ''manualOverrideStateExpiresAt'' = None
           \<and> st3 ''defaultState'' = Some desired"
      by simp
  }
qed

lemma poll_decide_frame:
  assumes "poll_decide e st w = (res, st3, w1)"
  shows "st3 ''currentState'' = st ''currentState''"
    and "state_file w1 = state_file w"
    and "w1 = w \<or> w1 = emit Battery w"
proof -
  have fr: "st3 ''currentState'' = st ''currentState'' \<and> (w1 = w \<or> w1 = emit Battery w)"
    using assms
  proof (cases rule: poll_decide_cases)
    case override_raises
    then show ?thesis by simp
  next
    case (keep_raises st1 err)
    with expire_override_frame[OF keep_raises(1)] show ?thesis by simp
  next
    case (hysteresis_raises st1 err)
    with expire_override_frame[OF hysteresis_raises(1)] expire_keep_frame[OF hysteresis_raises(2)]
      hysteresis_world[OF hysteresis_raises(3)]
    show ?thesis by simp
  next
    case (desired_raises st1 st2 err)
    with expire_override_frame[OF desired_raises(1)] expire_keep_frame[OF desired_raises(2)]
      hysteresis_world[OF desired_raises(3)] hysteresis_frame[OF desired_raises(3)]
    show ?thesis by simp
  next
    case (decided st1 st2 desired)
    with expire_override_frame[OF decided(1)] expire_keep_frame[OF decided(2)]
      hysteresis_world[OF decided(3)] hysteresis_frame[OF decided(3)]
    show ?thesis by simp
  qed
  then show "st3 ''currentState'' = st ''currentState''" "w1 = w \<or> w1 = emit Battery w"
    by simp_all
  from fr show "state_file w1 = state_file w" by (auto simp: emit_def)
qed

text \<open>
  The reconciliation after \<open>poll_decide\<close>: only \<open>currentState\<close> can still change, and
  the events are those of the driver and the final write.
\<close>

lemma priv_poll_after_decide:
  assumes home: "ssid e = Some HOME_SSID"
    and run: "priv_poll e st w = (r, st', w')"
    and d: "poll_decide e st w = (res, st3, w1)"
  obtains
    (decide_raises) err where "res = Inl err" "r = Some err" "st' = st3" "w' = w1"
  | (no_key) desired where "res = Inr desired" "st3 ''currentState'' = None"
      "r = Some (KeyError ''currentState'')" "st' = st3" "w' = w1"
  | (same) "res = Inr (the (st3 ''currentState''))" "st3 ''currentState'' \<noteq> None"
      "r = None" "st' = st3" "w' = priv_write_state st3 w1"
  | (raised) desired cur err evs where "res = Inr desired" "st3 ''currentState'' = Some cur"
      "desired \<noteq> cur" "r = Some err" "err = RuntimeError \<or> err = PlugError" "st' = st3"
      "state_file w' = state_file w1" "log w' = log w1 @ Ping # evs"
      "list_all is_driver_event evs"
  | (switched) desired cur evs w2 where "res = Inr desired" "st3 ''currentState'' = Some cur"
      "desired \<noteq> cur" "r = None" "st' = st3(''currentState'' \<mapsto> desired)"
      "state_file w2 = state_file w1" "log w2 = log w1 @ Ping # evs"
      "list_all is_driver_event evs" "w' = priv_write_state st' w2"
  using home run
proof (cases rule: priv_poll_home_cases)
  case (decide_raises err)
  with d have "res = Inl err" "st' = st3" "w' = w1" by simp_all
  with decide_raises(2) that(1) show ?thesis by blast
next
  case (switch_raises desired w1' err)
  with d have eq: "res = Inr desired" "st' = st3" "w1' = w1" by simp_all
  from switch_raises(2)[unfolded eq] show ?thesis
  proof (cases rule: poll_switch_cases)
    case no_key
    with eq switch_raises(3) that(2) show ?thesis by blast
  next
    case (raised cur err' evs)
    with eq switch_raises(3) that(4)[of desired cur err evs] show ?thesis by auto
  qed simp_all
next
  case (returns desired st3' w1' w2)
  with d have eq: "res = Inr desired" "st3' = st3" "w1' = w1" by simp_all
  from returns(2)[unfolded eq] show ?thesis
  proof (cases rule: poll_switch_cases)
    case same
    with eq returns(3,4) that(3) show ?thesis by auto
  next
    case (switched cur evs)
    with eq returns(3,4) that(5)[of desired cur w2 evs] show ?thesis by auto
  qed simp_all
qed


lemma decide_log:
  assumes "poll_decide e st w = (res, st3, w1)"
  obtains pre where "log w1 = log w @ pre" "pre = [] \<or> pre = [Battery]"
  using poll_decide_frame(3)[OF assms] by (auto simp: emit_def)

lemma new_events_simps:
  "log w' = log w @ evs \<Longrightarrow> driver_invoked w w' = list_ex is_driver_event evs"
  "log w' = log w @ evs \<Longrightarrow> battery_queried w w' = list_ex is_battery_event evs"
  "log w' = log w @ evs \<Longrightarrow> state_written w w' = list_ex is_write_event evs"
  by (simp_all add: driver_invoked_def battery_queried_def state_written_def new_events_def)

lemma driver_event_only:
  "is_driver_event ev \<Longrightarrow> \<not> is_write_event ev \<and> \<not> is_battery_event ev"
  by (cases ev) simp_all

lemma write_state_simps:
  "state_file (priv_write_state st w) = Some st"
  "log (priv_write_state st w) = log w @ [Write st]"
  by (simp_all add: priv_write_state_def emit_def)

lemma decide_keep_active:
  assumes d: "poll_decide e st w = (res, st3, w1)"
    and k: "read_time e st ''keepStateUntil'' = Inr t" and a: "now e < t"
  shows "w1 = w" and "st3 ''defaultState'' = st ''defaultState''"
    and "st3 ''keepStateUntil'' = st ''keepStateUntil''"
proof -
  have pinned: "poll_expire_keep e st1 = kres \<Longrightarrow> kres = Inr st1 \<and> ''keepStateUntil'' \<in> dom st1"
    if "poll_expire_override e st = Inr st1" for st1 kres
  proof -
    assume kr: "poll_expire_keep e st1 = kres"
    from expire_override_frame[OF that, of "''keepStateUntil''"]
    have "read_time e st1 ''keepStateUntil'' = Inr t"
      using k read_time_cong[of st1 "''keepStateUntil''" st e] by simp
    with kr a show ?thesis
      by (cases rule: expire_keep_cases) (auto dest: read_time_dom)
  qed
  have "w1 = w \<and> st3 ''defaultState'' = st ''defaultState''
      \<and> st3 ''keepStateUntil'' = st ''keepStateUntil''"
    using d
  proof (cases rule: poll_decide_cases)
    case (override_raises err)
    then show ?thesis by simp
  next
    case (keep_raises st1 err)
    with pinned[OF keep_raises(1) keep_raises(2)] show ?thesis by simp
  next
    case (hysteresis_raises st1 err)
    from pinned[OF hysteresis_raises(1) hysteresis_raises(2)]
    have "st3 = st1" "''keepStateUntil'' \<in> dom st1" by simp_all
    with hysteresis_pinned[of st1 e w] hysteresis_raises(3) show ?thesis by simp
  next
    case (desired_raises st1 st2 err)
    from pinned[OF desired_raises(1) desired_raises(2)]
    have "st2 = st1" "''keepStateUntil'' \<in> dom st1" by simp_all
    with hysteresis_pinned[of st1 e w] desired_raises(3)
      expire_override_frame[OF desired_raises(1)]
    show ?thesis by simp
  next
    case (decided st1 st2 desired)
    from pinned[OF decided(1) decided(2)]
    have "st2 = st1" "''keepStateUntil'' \<in> dom st1" by simp_all
    with hysteresis_pinned[of st1 e w] decided(3) expire_override_frame[OF decided(1)]
    show ?thesis by simp
  qed
  then show "w1 = w" "st3 ''defaultState'' = st ''defaultState''"
    "st3 ''keepStateUntil'' = st ''keepStateUntil''"
    by simp_all
qed

lemma decide_keep_expired:
  assumes d: "poll_decide e st w = (res, st3, w1)"
    and k: "read_time e st ''keepStateUntil'' = Inr t" and x: "t \<le> now e"
    and o: "override_readable e st"
  shows "w1 = emit Battery w" and "st3 ''keepStateUntil'' = None"
    and "battery e = Some b \<Longrightarrow> st ''defaultState'' = Some v \<Longrightarrow>
         st3 ''defaultState'' = Some (hysteresis v b)"
proof -
  have "\<exists>st1. poll_expire_override e st = Inr st1"
    using o by (auto simp: poll_expire_override_def override_readable_def domIff
        split: option.splits sum.splits)
  then obtain st1 where o1: "poll_expire_override e st = Inr st1" ..
  from expire_override_frame[OF o1, of "''keepStateUntil''"]
  have "read_time e st1 ''keepStateUntil'' = Inr t"
    using k read_time_cong[of st1 "''keepStateUntil''" st e] by simp
  with x have k2: "poll_expire_keep e st1 = Inr (st1(''keepStateUntil'' := None))"
    by (auto simp: poll_expire_keep_def dest: read_time_dom)
  let ?st2 = "st1(''keepStateUntil'' := None)"
  have no: "''keepStateUntil'' \<notin> dom ?st2" by simp
  have frame2: "?st2 ''defaultState'' = st ''defaultState''"
    using expire_override_frame[OF o1, of "''defaultState''"] by simp
  have "w1 = emit Battery w \<and> st3 ''keepStateUntil'' = None
      \<and> (battery e = Some b \<longrightarrow> st ''defaultState'' = Some v \<longrightarrow>
           st3 ''defaultState'' = Some (hysteresis v b))"
    using d
  proof (cases rule: poll_decide_cases)
    case (override_raises err)
    with o1 show ?thesis by simp
  next
    case (keep_raises st1' err)
    with o1 k2 show ?thesis by simp
  next
    case (hysteresis_raises st1' err)
    with o1 k2 have eq: "st3 = ?st2" by simp
    from hysteresis_world[OF hysteresis_raises(3)] hysteresis_err[OF hysteresis_raises(3)]
      eq frame2
    show ?thesis by auto
  next
    case (desired_raises st1' st2 err)
    with o1 k2 have eq: "st2 = ?st2" by simp
    from hysteresis_world[OF desired_raises(3)] hysteresis_frame[OF desired_raises(3)]
      hysteresis_value[OF no, of e b v w] desired_raises(3) eq frame2
    show ?thesis by auto
  next
    case (decided st1' st2 desired)
    with o1 k2 have eq: "st2 = ?st2" by simp
    from hysteresis_world[OF decided(3)] hysteresis_frame[OF decided(3)]
      hysteresis_value[OF no, of e b v w] decided(3) eq frame2
    show ?thesis by auto
  qed
  then show "w1 = emit Battery w" "st3 ''keepStateUntil'' = None"
    "battery e = Some b \<Longrightarrow> st ''defaultState'' = Some v \<Longrightarrow>
         st3 ''defaultState'' = Some (hysteresis v b)"
    by simp_all
qed

lemma after_decide_frame:
  assumes home: "ssid e = Some HOME_SSID"
    and run: "priv_poll e st w = (r, st', w')"
    and d: "poll_decide e st w = (res, st3, w1)"
  shows "k \<noteq> ''currentState'' \<Longrightarrow> st' k = st3 k"
    and "\<exists>post. log w' = log w1 @ post \<and> \<not> list_ex is_battery_event post"
proof -
  have "(k \<noteq> ''currentState'' \<longrightarrow> st' k = st3 k)
      \<and> (\<exists>post. log w' = log w1 @ post \<and> \<not> list_ex is_battery_event post)"
    using home run d
  proof (cases rule: priv_poll_after_decide)
    case (raised desired cur err evs)
    then show ?thesis
      by (auto simp: list_all_iff list_ex_iff dest: driver_event_only)
  next
    case (switched desired cur evs w2)
    then have "log w' = log w1 @ (Ping # evs @ [Write st'])"
      by (simp add: write_state_simps)
    moreover have "\<not> list_ex is_battery_event (Ping # evs @ [Write st'])"
      using switched(8) by (auto simp: list_all_iff list_ex_iff dest: driver_event_only)
    ultimately show ?thesis using switched(5)
      by (intro conjI impI exI[of _ "Ping # evs @ [Write st']"]) simp_all
  qed (auto simp: write_state_simps)
  then show "k \<noteq> ''currentState'' \<Longrightarrow> st' k = st3 k"
    "\<exists>post. log w' = log w1 @ post \<and> \<not> list_ex is_battery_event post"
    by simp_all
qed

lemma poll_decide_key_error:
  assumes d: "poll_decide e st w = (Inl (KeyError k), st3, w1)"
    and p: "paired st"
  shows "k = ''defaultState'' \<and> st ''defaultState'' = None"
  using d
proof (cases rule: poll_decide_cases)
  case (override_raises err)
  then have err: "err = KeyError k" by simp
  from override_raises(1) p err show ?thesis
    by (cases rule: expire_override_cases)
       (auto simp: paired_def read_time_def split: option.splits jvalue.splits)
next
  case (keep_raises st1 err)
  then have err: "err = KeyError k" by simp
  from keep_raises(2) err show ?thesis
    by (cases rule: expire_keep_cases)
       (auto simp: read_time_def split: option.splits jvalue.splits)
next
  case (hysteresis_raises st1 err)
  then have err: "err = KeyError k" by simp
  from hysteresis_err[OF hysteresis_raises(3)] err
    expire_override_frame[OF hysteresis_raises(1), of "''defaultState''"]
    expire_keep_frame[OF hysteresis_raises(2), of "''defaultState''"]
  show ?thesis by auto
next
  case (desired_raises st1 st2 err)
  then have err: "err = KeyError k" by simp
  from desired_raises(4) have "k = ''defaultState'' \<and> st3 ''defaultState'' = None"
    using err by (cases rule: desired_state_cases) auto
  moreover have "st3 ''defaultState'' \<noteq> None" if "st ''defaultState'' \<noteq> None"
  proof -
    from that expire_override_frame[OF desired_raises(1), of "''defaultState''"]
      expire_keep_frame[OF desired_raises(2), of "''defaultState''"]
    have "st2 ''defaultState'' \<noteq> None" by simp
    with desired_raises(3) show ?thesis
      by (auto simp: poll_hysteresis_def split: if_splits option.splits)
  qed
  ultimately show ?thesis by (cases "st ''defaultState''") auto
next
  case (decided st1 st2 desired)
  then show ?thesis by simp
qed

lemma hysteresis_idem: "hysteresis (hysteresis v b) b = hysteresis v b"
  by (simp add: hysteresis_def)

lemma expire_override_cur:
  "poll_expire_override e (st(''currentState'' \<mapsto> c)) =
     (case poll_expire_override e st of
        Inl err \<Rightarrow> Inl err
      | Inr s \<Rightarrow> Inr (s(''currentState'' \<mapsto> c)))"
proof -
  have "(st(''currentState'' \<mapsto> c))(''manualOverrideState'' := None,
          ''manualOverrideStateExpiresAt'' := None)
      = (st(''manualOverrideState'' := None, ''manualOverrideStateExpiresAt'' := None))
          (''currentState'' \<mapsto> c)"
    by (rule ext) simp
  then show ?thesis
    by (simp add: poll_expire_override_def read_time_def domIff
        split: option.splits jvalue.splits)
qed

lemma expire_keep_cur:
  "poll_expire_keep e (st(''currentState'' \<mapsto> c)) =
     (case poll_expire_keep e st of
        Inl err \<Rightarrow> Inl err
      | Inr s \<Rightarrow> Inr (s(''currentState'' \<mapsto> c)))"
proof -
  have "(st(''currentState'' \<mapsto> c))(''keepStateUntil'' := None)
      = (st(''keepStateUntil'' := None))(''currentState'' \<mapsto> c)"
    by (rule ext) simp
  then show ?thesis
    by (simp add: poll_expire_keep_def read_time_def domIff
        split: option.splits jvalue.splits)
qed

lemma hysteresis_cur:
  "poll_hysteresis e (st(''currentState'' \<mapsto> c)) w =
     (case poll_hysteresis e st w of
        (Inl err, w1) \<Rightarrow> (Inl err, w1)
      | (Inr s, w1) \<Rightarrow> (Inr (s(''currentState'' \<mapsto> c)), w1))"
proof -
  have "(st(''currentState'' \<mapsto> c))(''defaultState'' \<mapsto> x)
      = (st(''defaultState'' \<mapsto> x))(''currentState'' \<mapsto> c)" for x
    by (rule ext) simp
  then show ?thesis
    by (simp add: poll_hysteresis_def domIff split: option.splits)
qed

lemma desired_state_cur:
  "poll_desired_state (st(''currentState'' \<mapsto> c)) = poll_desired_state st"
  by (simp add: poll_desired_state_def domIff)

lemma poll_decide_cur:
  "poll_decide e st w = (res, st3, w1) \<Longrightarrow>
   poll_decide e (st(''currentState'' \<mapsto> c)) w = (res, st3(''currentState'' \<mapsto> c), w1)"
  by (erule poll_decide_cases)
     (simp_all add: poll_decide_def expire_override_cur expire_keep_cur hysteresis_cur
        desired_state_cur)


lemma poll_decide_idem:
  assumes d: "poll_decide e st w = (Inr desired, st3, w1)"
  shows "\<exists>w2. poll_decide e st3 wa = (Inr desired, st3, w2) \<and> (w2 = wa \<or> w2 = emit Battery wa)"
proof -
  from d obtain st1 st2 where o: "poll_expire_override e st = Inr st1"
    and k: "poll_expire_keep e st1 = Inr st2"
    and h: "poll_hysteresis e st2 w = (Inr st3, w1)"
    and ds: "poll_desired_state st3 = Inr desired"
    by (cases rule: poll_decide_cases) auto
  have f3: "st3 ''manualOverrideState'' = st1 ''manualOverrideState''"
    "st3 ''manualOverrideStateExpiresAt'' = st1 ''manualOverrideStateExpiresAt''"
    "st3 ''keepStateUntil'' = st2 ''keepStateUntil''"
    using expire_keep_frame[OF k] hysteresis_frame[OF h] by simp_all
  have o3: "poll_expire_override e st3 = Inr st3"
    using o
  proof (cases rule: expire_override_cases)
    case absent
    with f3 show ?thesis by (simp add: poll_expire_override_def domIff)
  next
    case (active t)
    then have "read_time e st3 ''manualOverrideStateExpiresAt'' = Inr t"
      using f3 read_time_cong[of st3 "''manualOverrideStateExpiresAt''" st e] by simp
    with active show ?thesis by (simp add: poll_expire_override_def)
  next
    case (expired t)
    with f3 show ?thesis by (simp add: poll_expire_override_def domIff)
  qed simp
  have k3: "poll_expire_keep e st3 = Inr st3"
    using k
  proof (cases rule: expire_keep_cases)
    case absent
    with f3 show ?thesis by (simp add: poll_expire_keep_def domIff)
  next
    case (active t)
    then have "read_time e st3 ''keepStateUntil'' = Inr t"
      using f3 read_time_cong[of st3 "''keepStateUntil''" st1 e] by simp
    with active show ?thesis by (simp add: poll_expire_keep_def)
  next
    case (expired t)
    with f3 show ?thesis by (simp add: poll_expire_keep_def domIff)
  qed simp
  have h3: "\<exists>w2. poll_hysteresis e st3 wa = (Inr st3, w2) \<and> (w2 = wa \<or> w2 = emit Battery wa)"
  proof (cases "''keepStateUntil'' \<in> dom st3")
    case True
    then show ?thesis by (simp add: hysteresis_pinned)
  next
    case False
    with f3 have no2: "''keepStateUntil'' \<notin> dom st2" by (simp add: domIff)
    from h no2 obtain b v where b: "battery e = Some b" and v: "st2 ''defaultState'' = Some v"
      by (auto simp: poll_hysteresis_def split: option.splits)
    from hysteresis_value[OF no2 b v, of w] h
    have v3: "st3 ''defaultState'' = Some (hysteresis v b)" by auto
    from hysteresis_value[OF False b v3, of wa]
      map_upd_triv[of st3 "''defaultState''" "hysteresis v b"] v3
    show ?thesis by (simp add: hysteresis_idem)
  qed
  then obtain w2 where "poll_hysteresis e st3 wa = (Inr st3, w2)"
    "w2 = wa \<or> w2 = emit Battery wa" by blast
  with o3 k3 ds show ?thesis by (simp add: poll_decide_def)
qed

subsection \<open>The lock\<close>

lemma acquire_loop_outcome:
  assumes "acquire_loop e tmo s w = Some y"
  shows "state_file (snd y) = state_file w
       \<and> (\<exists>n. log (snd y) = log w @ replicate n Sleep @ (if fst y = None then [Acquire] else []))
       \<and> (fst y = None \<or> fst y = Some Timeout \<and> 0 \<le> tmo)"
  using assms
proof (induction e tmo s w y rule: acquire_loop.raw_induct[rotated 1, consumes 1])
  case (1 f e tmo s w y)
  show ?case
  proof (cases "lock_held e (length (log w))")
    case False
    with 1(2) have "y = (None, emit Acquire w)" by simp
    then show ?thesis by (auto simp: emit_def intro: exI[of _ 0])
  next
    case held: True
    show ?thesis
    proof (cases "0 \<le> tmo \<and> tmo < perf_counter e (length (log w)) - s")
      case True
      with held 1(2) have "y = (Some Timeout, w)" by simp
      with True show ?thesis by (auto intro: exI[of _ 0])
    next
      case False
      with held 1(2) have "f e tmo s (emit Sleep w) = Some y" by auto
      from 1(1)[OF this] obtain n where
        "state_file (snd y) = state_file w"
        "log (snd y) = log w @ Sleep # replicate n Sleep @ (if fst y = None then [Acquire] else [])"
        "fst y = None \<or> fst y = Some Timeout \<and> 0 \<le> tmo"
        by (auto simp: emit_def)
      then show ?thesis by (auto intro: exI[of _ "Suc n"])
    qed
  qed
qed

lemma acquire_loop_result:
  assumes "acquire_loop e tmo s w = Some (r, w')"
  shows "state_file w' = state_file w"
    and "\<exists>n. log w' = log w @ replicate n Sleep @ (if r = None then [Acquire] else [])"
    and "r = None \<or> r = Some Timeout \<and> 0 \<le> tmo"
  using acquire_loop_outcome[OF assms] by simp_all

lemma acquire_loop_blocks:
  assumes "acquire_loop e tmo s w = Some y" and "\<forall>i. lock_held e i" and "tmo < 0"
  shows False
  using assms
proof (induction e tmo s w y rule: acquire_loop.raw_induct[rotated 1, consumes 1])
  case (1 f e tmo s w y)
  from 1(2-) have "f e tmo s (emit Sleep w) = Some y" by simp
  from 1(1)[OF this 1(3,4)] show ?case .
qed

lemma optimistic_lock_never_raises:
  "acquire e priv_optimistic_lock w \<noteq> Some (Some err, w')"
proof
  assume "acquire e priv_optimistic_lock w = Some (Some err, w')"
  from acquire_loop_result(3)[OF this[unfolded acquire_def]]
  show False by (simp add: priv_optimistic_lock_def SoftFileLock_default_timeout_def)
qed

lemma optimistic_lock_blocks:
  assumes "\<forall>i. lock_held e i"
  shows "poll e w = None"
proof -
  have "acquire e priv_optimistic_lock w = None"
  proof (cases "acquire e priv_optimistic_lock w")
    case (Some y)
    from acquire_loop_blocks[OF Some[unfolded acquire_def] assms] show ?thesis
      by (simp add: priv_optimistic_lock_def SoftFileLock_default_timeout_def)
  qed simp
  then show ?thesis by (simp add: poll_def with_lock_def)
qed

subsection \<open>The paired override fields\<close>

lemma paired_cong:
  "st' ''manualOverrideState'' = st ''manualOverrideState'' \<Longrightarrow>
   st' ''manualOverrideStateExpiresAt'' = st ''manualOverrideStateExpiresAt'' \<Longrightarrow>
   paired st' = paired st"
  by (simp add: paired_def domIff)

lemma expire_override_paired:
  "poll_expire_override e st = Inr st1 \<Longrightarrow> paired st \<Longrightarrow> paired st1"
  by (erule expire_override_cases) (auto simp: paired_def)

lemma poll_decide_paired:
  assumes d: "poll_decide e st w = (res, st3, w1)" and p: "paired st"
  shows "paired st3"
  using d
proof (cases rule: poll_decide_cases)
  case (override_raises err)
  with p show ?thesis by simp
next
  case (keep_raises st1 err)
  with expire_override_paired[OF keep_raises(1) p] show ?thesis by simp
next
  case (hysteresis_raises st1 err)
  from expire_keep_frame[OF hysteresis_raises(2)] expire_override_paired[OF hysteresis_raises(1) p]
  show ?thesis by (simp add: paired_cong[of st3 st1])
next
  case (desired_raises st1 st2 err)
  from expire_keep_frame[OF desired_raises(2)] hysteresis_frame[OF desired_raises(3)]
    expire_override_paired[OF desired_raises(1) p]
  show ?thesis by (simp add: paired_cong[of st3 st1])
next
  case (decided st1 st2 desired)
  from expire_keep_frame[OF decided(2)] hysteresis_frame[OF decided(3)]
    expire_override_paired[OF decided(1) p]
  show ?thesis by (simp add: paired_cong[of st3 st1])
qed

lemma priv_poll_paired:
  assumes p: "paired st" and run: "priv_poll e st w = (r, st', w')"
  shows "paired st'" and "state_file w' = state_file w \<or> state_file w' = Some st'"
proof -
  have "paired st' \<and> (state_file w' = state_file w \<or> state_file w' = Some st')"
  proof (cases "ssid e = Some HOME_SSID")
    case False
    with run p show ?thesis by (auto simp: priv_poll_def write_state_simps)
  next
    case home: True
    obtain res st3 w1 where d: "poll_decide e st w = (res, st3, w1)"
      by (cases "poll_decide e st w")
    note p3 = poll_decide_paired[OF d p] and fr = poll_decide_frame(2)[OF d]
    from home run d show ?thesis
    proof (cases rule: priv_poll_after_decide)
      case (switched desired cur evs w2)
      have "paired st' = paired st3" using switched(5) by (simp add: paired_def domIff)
      with p3 switched show ?thesis by (simp add: write_state_simps)
    qed (use p3 fr in \<open>simp_all add: write_state_simps\<close>)
  qed
  then show "paired st'" "state_file w' = state_file w \<or> state_file w' = Some st'"
    by simp_all
qed

lemma poll_body_paired:
  assumes "paired st" and "persisted_paired w" and "poll_body e st w = (r, w')"
  shows "persisted_paired w'"
proof -
  obtain r0 st' w0 where run: "priv_poll e st w = (r0, st', w0)" by (cases "priv_poll e st w")
  with assms(3) have "w' = w0" by (simp add: poll_body_def)
  with priv_poll_paired[OF assms(1) run] assms(2) show ?thesis
    by (auto simp: persisted_paired_def)
qed

lemma with_lock_cases:
  assumes "with_lock e lk body w = Some (r, w')"
  obtains
    (timeout) "r = Some Timeout" "state_file w' = state_file w"
      "\<exists>n. log w' = log w @ replicate n Sleep"
  | (entered) w1 w2 where "acquire e lk w = Some (None, w1)" "state_file w1 = state_file w"
      "\<exists>n. log w1 = log w @ replicate n Sleep @ [Acquire]"
      "body w1 = (r, w2)" "w' = emit Release w2"
proof -
  from assms obtain ra w1 where a: "acquire e lk w = Some (ra, w1)"
    by (auto simp: with_lock_def split: option.splits)
  note facts = acquire_loop_result[OF a[unfolded acquire_def]]
  show ?thesis
  proof (cases ra)
    case None
    obtain r2 w2 where b: "body w1 = (r2, w2)" by (cases "body w1")
    with assms a None have "r = r2" "w' = emit Release w2" by (simp_all add: with_lock_def)
    with a None b facts entered show ?thesis by auto
  next
    case (Some err)
    with assms a have "r = Some err" "w' = w1" by (simp_all add: with_lock_def)
    with Some facts timeout show ?thesis by auto
  qed
qed

lemma with_lock_paired:
  assumes "with_lock e lk (\<lambda>w1. poll_body e (f w1) w1) w = Some (r, w')"
    and "persisted_paired w"
    and "\<And>w1. state_file w1 = state_file w \<Longrightarrow> paired (f w1)"
  shows "persisted_paired w'"
  using assms(1)
proof (cases rule: with_lock_cases)
  case timeout
  with assms(2) show ?thesis by (simp add: persisted_paired_def)
next
  case (entered w1 w2)
  from entered(2) assms(2) have "persisted_paired w1" by (simp add: persisted_paired_def)
  from poll_body_paired[OF assms(3)[OF entered(2)] this entered(4)] entered(5)
  show ?thesis by (simp add: persisted_paired_def emit_def)
qed

lemma read_state_paired:
  "persisted_paired w \<Longrightarrow> state_file w1 = state_file w \<Longrightarrow> paired (priv_read_state w1)"
  by (auto simp: persisted_paired_def priv_read_state_def priv_default_state_def paired_def
      split: option.splits)

lemma run_paired:
  assumes p: "persisted_paired w" and r: "run opn e w = Some (r, w')"
  shows "persisted_paired w'"
proof (cases opn)
  case Poll
  with r have "with_lock e priv_optimistic_lock (\<lambda>w1. poll_body e (priv_read_state w1) w1) w
      = Some (r, w')" by (simp add: poll_def)
  from with_lock_paired[OF this p] read_state_paired[OF p] show ?thesis by simp
next
  case EnableOverride
  with r have "with_lock e priv_lock
      (\<lambda>w1. poll_body e ((priv_read_state w1)(''manualOverrideState'' \<mapsto> JBool True,
         ''manualOverrideStateExpiresAt'' \<mapsto>
           JStr (isoformat e (op_now e + MANUAL_OVERRIDE_INTERVAL)))) w1) w
      = Some (r, w')" by (simp add: enable_manual_override_def Let_def)
  from with_lock_paired[OF this p] show ?thesis by (simp add: paired_def)
next
  case DisableOverride
  with r have "with_lock e priv_lock
      (\<lambda>w1. poll_body e ((priv_read_state w1)(''manualOverrideState'' := None,
         ''manualOverrideStateExpiresAt'' := None)) w1) w
      = Some (r, w')" by (simp add: disable_manual_override_def Let_def)
  from with_lock_paired[OF this p] show ?thesis by (simp add: paired_def)
next
  case PrepareForSleep
  show ?thesis
  proof (cases "sleep_battery e")
    case None
    with r PrepareForSleep have "w' = emit Battery w" by (simp add: prepare_for_sleep_def)
    with p show ?thesis by (simp add: persisted_paired_def emit_def)
  next
    case (Some b)
    with r PrepareForSleep have "with_lock e priv_lock
      (\<lambda>w1. poll_body e ((priv_read_state w1)
         (''defaultState'' \<mapsto> JBool (b \<le> SLEEP_CHARGE_THRESHOLD),
          ''keepStateUntil'' \<mapsto> JStr (isoformat e (op_now e + SLEEP_INTERVAL)))) w1)
      (emit Battery w) = Some (r, w')" by (simp add: prepare_for_sleep_def Let_def)
    moreover have pb: "persisted_paired (emit Battery w)"
      using p by (simp add: persisted_paired_def emit_def)
    moreover have "paired ((priv_read_state w1)
         (''defaultState'' \<mapsto> JBool (b \<le> SLEEP_CHARGE_THRESHOLD),
          ''keepStateUntil'' \<mapsto> JStr (isoformat e (op_now e + SLEEP_INTERVAL))))"
      if "state_file w1 = state_file (emit Battery w)" for w1
      using read_state_paired[OF pb that] by (simp add: paired_def domIff)
    ultimately show ?thesis by (rule with_lock_paired)
  qed
next
  case Scan
  obtain r0 w0 where pp: "priv_ping_plug e w = (r0, w0)" by (cases "priv_ping_plug e w")
  note f0 = priv_ping_plug_log(1)[OF pp]
  show ?thesis
  proof (cases r0)
    case (Some err)
    with r Scan pp have "w' = w0" by (simp add: scan_def)
    with f0 p show ?thesis by (simp add: persisted_paired_def)
  next
    case None
    show ?thesis
    proof (cases "plug_update e")
      case no_update: None
      with r Scan pp None have "w' = emit Update w0" by (simp add: scan_def)
      with f0 p show ?thesis by (simp add: persisted_paired_def emit_def)
    next
      case (Some is_on)
      with r Scan pp None have "with_lock e priv_lock
        (\<lambda>w1. poll_body e ((priv_read_state w1)(''currentState'' \<mapsto> JBool is_on)) w1)
        (emit Update w0) = Some (r, w')" by (simp add: scan_def Let_def)
      moreover have pb: "persisted_paired (emit Update w0)"
        using p f0 by (simp add: persisted_paired_def emit_def)
      moreover have "paired ((priv_read_state w1)(''currentState'' \<mapsto> JBool is_on))"
        if "state_file w1 = state_file (emit Update w0)" for w1
        using read_state_paired[OF pb that] by (simp add: paired_def domIff)
      ultimately show ?thesis by (rule with_lock_paired)
    qed
  qed
qed

lemma reachable_paired: "reachable w \<Longrightarrow> persisted_paired w"
proof (induction rule: reachable.induct)
  case initial
  show ?case by (simp add: persisted_paired_def)
next
  case (step w opn e r w')
  from run_paired[OF step.IH step.hyps(2)] show ?case .
qed

lemma priv_poll_returns_persisted:
  assumes "priv_poll e st w = (None, st', w')"
  shows "state_file w' = Some st'"
proof (cases "ssid e = Some HOME_SSID")
  case False
  with assms show ?thesis by (auto simp: priv_poll_def write_state_simps)
next
  case True
  from True assms show ?thesis
    by (cases rule: priv_poll_home_cases) (simp_all add: write_state_simps)
qed

subsection \<open>The events of a driver call\<close>

lemma ping_attempts_exact:
  "ping_attempts n e w = (ok, w') \<Longrightarrow>
   \<exists>k. k \<le> n \<and> log w' = log w @ replicate k Ping \<and> (ok \<longrightarrow> 0 < k) \<and> (\<not> ok \<longrightarrow> k = n)"
proof (induction n arbitrary: w)
  case 0
  then show ?case by auto
next
  case (Suc n)
  show ?case
  proof (cases "ping e (length (log w))")
    case True
    with Suc.prems have "ok" "w' = emit Ping w" by simp_all
    then show ?thesis by (auto simp: emit_def intro: exI[of _ 1])
  next
    case False
    with Suc.prems have "ping_attempts n e (emit Ping w) = (ok, w')" by simp
    from Suc.IH[OF this] obtain k
      where "k \<le> n" "log w' = log w @ Ping # replicate k Ping" "\<not> ok \<longrightarrow> k = n"
      by (auto simp: emit_def)
    then show ?thesis by (auto intro: exI[of _ "Suc k"])
  qed
qed

lemma driver_call_exact:
  assumes "(if on then priv_turn_on e w else priv_turn_off e w) = (r, w')"
  shows "\<exists>k. 1 \<le> k \<and> k \<le> 3
           \<and> log w' = log w @ replicate k Ping
                 @ (if r = Some RuntimeError then [] else [if on then TurnOn else TurnOff])
           \<and> (r = Some RuntimeError \<longrightarrow> k = 3)"
    and "r = None \<longrightarrow> switch_ok e"
    and "r = Some PlugError \<longrightarrow> \<not> switch_ok e"
proof -
  obtain ok w0 where p: "ping_attempts 3 e w = (ok, w0)" by (cases "ping_attempts 3 e w")
  from ping_attempts_exact[OF p] obtain k where k: "k \<le> 3" "log w0 = log w @ replicate k Ping"
    "ok \<longrightarrow> 0 < k" "\<not> ok \<longrightarrow> k = 3" by blast
  show "\<exists>k. 1 \<le> k \<and> k \<le> 3
           \<and> log w' = log w @ replicate k Ping
                 @ (if r = Some RuntimeError then [] else [if on then TurnOn else TurnOff])
           \<and> (r = Some RuntimeError \<longrightarrow> k = 3)"
  proof (cases ok)
    case True
    with assms p have "r \<noteq> Some RuntimeError"
      "w' = emit (if on then TurnOn else TurnOff) w0"
      by (auto simp: priv_turn_on_def priv_turn_off_def priv_ping_plug_def split: if_splits)
    with k True show ?thesis by (intro exI[of _ k]) (auto simp: emit_def)
  next
    case False
    with assms p have "r = Some RuntimeError" "w' = w0"
      by (auto simp: priv_turn_on_def priv_turn_off_def priv_ping_plug_def split: if_splits)
    with k False show ?thesis by (intro exI[of _ k]) auto
  qed
  from assms show "r = None \<longrightarrow> switch_ok e" "r = Some PlugError \<longrightarrow> \<not> switch_ok e"
    by (auto simp: priv_turn_on_def priv_turn_off_def priv_ping_plug_def
        split: if_splits prod.splits bool.splits)
qed

lemma poll_switch_exact:
  assumes s: "poll_switch e desired st w = (res, w')"
    and cur: "st ''currentState'' = Some c" and ne: "desired \<noteq> c"
  shows "\<exists>k. 1 \<le> k \<and> k \<le> 3
           \<and> log w' = log w @ replicate k Ping
                 @ (if res = Inl RuntimeError then [] else [switch_command desired])
           \<and> (res = Inl RuntimeError \<longrightarrow> k = 3)"
    and "(\<exists>st'. res = Inr st') \<longrightarrow> switch_ok e"
    and "res = Inl PlugError \<longrightarrow> \<not> switch_ok e"
proof -
  obtain r w1 where d: "(if truthy desired then priv_turn_on e w else priv_turn_off e w) = (r, w1)"
    by (cases "if truthy desired then priv_turn_on e w else priv_turn_off e w")
  from s cur ne d have eq: "w' = w1" "res = (case r of None \<Rightarrow> Inr (st(''currentState'' \<mapsto> desired))
      | Some err \<Rightarrow> Inl err)"
    by (auto simp: poll_switch_def split: option.splits)
  then have r: "(res = Inl RuntimeError) = (r = Some RuntimeError)"
    "(res = Inl PlugError) = (r = Some PlugError)" "(\<exists>st'. res = Inr st') = (r = None)"
    by (auto split: option.splits)
  note facts = driver_call_exact[OF d]
  from facts(1) eq(1) r(1)
  show "\<exists>k. 1 \<le> k \<and> k \<le> 3
           \<and> log w' = log w @ replicate k Ping
                 @ (if res = Inl RuntimeError then [] else [switch_command desired])
           \<and> (res = Inl RuntimeError \<longrightarrow> k = 3)"
    by (auto simp: switch_command_def)
  from facts(2,3) r show "(\<exists>st'. res = Inr st') \<longrightarrow> switch_ok e"
    "res = Inl PlugError \<longrightarrow> \<not> switch_ok e" by simp_all
qed

lemma driver_events_simps:
  "filter is_driver_event (replicate k Ping) = replicate k Ping"
  "is_driver_event (switch_command d)"
  "is_switch_event (switch_command d)"
  by (simp_all add: switch_command_def)

lemma poll_driver_events:
  assumes home: "ssid e = Some HOME_SSID"
    and run: "priv_poll e st w = (r, st', w')"
    and d: "poll_decide e st w = (Inr desired, st3, w1)"
    and cur: "st ''currentState'' = Some c" and ne: "desired \<noteq> c"
  shows "\<exists>k. 1 \<le> k \<and> k \<le> 3
           \<and> driver_events w w' = replicate k Ping
                 @ (if r = Some RuntimeError then [] else [switch_command desired])
           \<and> (r = Some RuntimeError \<longrightarrow> k = 3)"
    and "r = None \<longrightarrow> switch_ok e"
    and "r = Some PlugError \<longrightarrow> \<not> switch_ok e"
proof -
  from poll_decide_frame[OF d] cur have c3: "st3 ''currentState'' = Some c" by simp
  from d obtain pre where pre: "log w1 = log w @ pre" "pre = [] \<or> pre = [Battery]"
    by (rule decide_log)
  then have fpre: "filter is_driver_event pre = []" by auto
  have "(\<exists>k. 1 \<le> k \<and> k \<le> 3
           \<and> driver_events w w' = replicate k Ping
                 @ (if r = Some RuntimeError then [] else [switch_command desired])
           \<and> (r = Some RuntimeError \<longrightarrow> k = 3))
      \<and> (r = None \<longrightarrow> switch_ok e) \<and> (r = Some PlugError \<longrightarrow> \<not> switch_ok e)"
    using home run
  proof (cases rule: priv_poll_home_cases)
    case (decide_raises err)
    with d show ?thesis by simp
  next
    case (switch_raises desired' w1' err)
    with d have eq: "desired' = desired" "st' = st3" "w1' = w1" by simp_all
    note sw = switch_raises(2)[unfolded eq]
    from poll_switch_exact[OF sw c3 ne] obtain k where k: "1 \<le> k" "k \<le> 3"
      "log w' = log w1 @ replicate k Ping
          @ (if err = RuntimeError then [] else [switch_command desired])"
      "err = RuntimeError \<longrightarrow> k = 3" "err = PlugError \<longrightarrow> \<not> switch_ok e"
      by auto
    from k(3) pre(1) have "new_events w w' = pre @ replicate k Ping
          @ (if err = RuntimeError then [] else [switch_command desired])"
      by (simp add: new_events_def)
    with fpre have "driver_events w w' = replicate k Ping
          @ (if err = RuntimeError then [] else [switch_command desired])"
      by (simp add: driver_events_def driver_events_simps)
    with k switch_raises(3) show ?thesis by (intro conjI exI[of _ k]) auto
  next
    case (returns desired' st3' w1' w2)
    with d have eq: "desired' = desired" "st3' = st3" "w1' = w1" by simp_all
    note sw = returns(2)[unfolded eq]
    from poll_switch_exact[OF sw c3 ne] obtain k where k: "1 \<le> k" "k \<le> 3"
      "log w2 = log w1 @ replicate k Ping @ [switch_command desired]" "switch_ok e"
      by auto
    from k(3) pre(1) returns(4) have "new_events w w' = pre @ replicate k Ping
          @ [switch_command desired, Write st']"
      by (simp add: new_events_def write_state_simps)
    with fpre have "driver_events w w' = replicate k Ping @ [switch_command desired]"
      by (simp add: driver_events_def driver_events_simps)
    with k returns(3) show ?thesis by (intro conjI exI[of _ k]) auto
  qed
  then show "\<exists>k. 1 \<le> k \<and> k \<le> 3
           \<and> driver_events w w' = replicate k Ping
                 @ (if r = Some RuntimeError then [] else [switch_command desired])
           \<and> (r = Some RuntimeError \<longrightarrow> k = 3)"
    "r = None \<longrightarrow> switch_ok e" "r = Some PlugError \<longrightarrow> \<not> switch_ok e"
    by simp_all
qed

text \<open>Unfolding the model on concrete inputs.\<close>

lemmas example_defs = home_env_def world0_def priv_default_state_def
  example_fromisoformat_def example_isoformat_def unreachable_env_def
  away_env_def busy_env_def override_status_def pinned_status_def
  sleep_status_def enabled_status_def

lemmas poll_defs = priv_poll_def poll_decide_def poll_expire_override_def
  poll_expire_keep_def poll_hysteresis_def poll_desired_state_def poll_switch_def
  read_time_def priv_turn_on_def priv_turn_off_def priv_ping_plug_def
  priv_write_state_def emit_def CHARGE_THRESHOLD_def DISCHARGE_THRESHOLD_def
  HOME_SSID_def numeral_3_eq_3

lemmas lock_defs = acquire_def with_lock_def priv_lock_def priv_optimistic_lock_def
  SoftFileLock_default_timeout_def poll_body_def priv_read_state_def

subsection \<open>The claims\<close>

text \<open>
  Claim C1, the dead band of the hysteresis. On the home network, in a reconciliation
  that got as far as the driver, with no keep-window left after the expiry step and
  a battery reading \<open>b\<close>: a true \<open>defaultState\<close> becomes false when \<open>b \<ge> 75\<close>, a false
  one becomes true when \<open>b \<le> 50\<close>, and for \<open>50 < b < 75\<close> it is unchanged; the
  comparisons are the non-strict ones. When the reconciliation returns, the record
  with this \<open>defaultState\<close> is the one in the state file.
\<close>

theorem hysteresis_dead_band:
  assumes home: "ssid e = Some HOME_SSID"
    and run: "priv_poll e st w = (r, st', w')"
    and r: "reached_switch r"
    and keep: "\<not> keep_window_active e st"
    and b: "battery e = Some b"
    and v: "st ''defaultState'' = Some v"
  shows "(truthy v \<and> b \<ge> 75 \<longrightarrow> st' ''defaultState'' = Some (JBool False))
       \<and> (\<not> truthy v \<and> b \<le> 50 \<longrightarrow> st' ''defaultState'' = Some (JBool True))
       \<and> (50 < b \<and> b < 75 \<longrightarrow> st' ''defaultState'' = Some v)
       \<and> (r = None \<longrightarrow> state_file w' = Some st')"
proof -
  have "st' ''defaultState'' = Some (hysteresis v b) \<and> (r = None \<longrightarrow> state_file w' = Some st')"
    using home run
  proof (cases rule: priv_poll_home_cases)
    case (decide_raises err)
    with r poll_decide_err show ?thesis by blast
  next
    case (switch_raises desired w1 err)
    from poll_decide_default[OF switch_raises(1) keep b v] switch_raises(3)
    show ?thesis by simp
  next
    case (returns desired st3 w1 w2)
    from returns(2) have "st' ''defaultState'' = st3 ''defaultState''"
      by (cases rule: poll_switch_cases) auto
    with poll_decide_default[OF returns(1) keep b v] returns(4)
    show ?thesis by (simp add: priv_write_state_def emit_def)
  qed
  then show ?thesis by (auto simp: hysteresis_def)
qed

theorem hysteresis_dead_band_witness:
  "ssid home_env = Some HOME_SSID
   \<and> priv_poll home_env priv_default_state world0 =
       (None, [''currentState'' \<mapsto> JBool False, ''defaultState'' \<mapsto> JBool False],
        \<lparr>state_file = Some [''currentState'' \<mapsto> JBool False, ''defaultState'' \<mapsto> JBool False],
         log = [Battery, Ping, TurnOff,
                Write [''currentState'' \<mapsto> JBool False, ''defaultState'' \<mapsto> JBool False]]\<rparr>)
   \<and> reached_switch None
   \<and> \<not> keep_window_active home_env priv_default_state
   \<and> battery home_env = Some 80
   \<and> priv_default_state ''defaultState'' = Some (JBool True)
   \<and> [''currentState'' \<mapsto> JBool False, ''defaultState'' \<mapsto> JBool False] ''defaultState''
       = Some (JBool False)"
proof -
  have run: "priv_poll home_env priv_default_state world0 =
       (None, [''currentState'' \<mapsto> JBool False, ''defaultState'' \<mapsto> JBool False],
        \<lparr>state_file = Some [''currentState'' \<mapsto> JBool False, ''defaultState'' \<mapsto> JBool False],
         log = [Battery, Ping, TurnOff,
                Write [''currentState'' \<mapsto> JBool False, ''defaultState'' \<mapsto> JBool False]]\<rparr>)"
    by (simp add: poll_defs example_defs fun_upd_twist)
  have hyps: "ssid home_env = Some HOME_SSID" "reached_switch None"
    "\<not> keep_window_active home_env priv_default_state" "battery home_env = Some 80"
    "priv_default_state ''defaultState'' = Some (JBool True)"
    by (simp_all add: example_defs HOME_SSID_def reached_switch_def keep_window_active_def
        read_time_def)
  from hysteresis_dead_band[OF hyps(1) run hyps(2-5)] run hyps show ?thesis by simp
qed

text \<open>
  Claim C2, precedence and expiry of the manual override. On the home network, in a
  reconciliation that got as far as the driver, with \<open>manualOverrideState = m\<close> and
  \<open>manualOverrideStateExpiresAt = t\<close>: while \<open>now < t\<close> the desired state is \<open>m\<close>,
  whatever the battery and \<open>defaultState\<close> are, and both fields stay; once \<open>now \<ge> t\<close>
  both fields are removed in this reconciliation and the desired state is
  \<open>defaultState\<close>. When the reconciliation returns, \<open>currentState\<close> is the desired
  state and the record is the one in the state file.
\<close>

theorem manual_override_precedence:
  assumes home: "ssid e = Some HOME_SSID"
    and run: "priv_poll e st w = (r, st', w')"
    and r: "reached_switch r"
    and m: "st ''manualOverrideState'' = Some m"
    and t: "read_time e st ''manualOverrideStateExpiresAt'' = Inr t"
  shows "(now e < t \<longrightarrow>
            fst (poll_decide e st w) = Inr m
          \<and> st' ''manualOverrideState'' = Some m
          \<and> st' ''manualOverrideStateExpiresAt'' = st ''manualOverrideStateExpiresAt''
          \<and> (r = None \<longrightarrow> st' ''currentState'' = Some m))
       \<and> (t \<le> now e \<longrightarrow>
            st' ''manualOverrideState'' = None
          \<and> st' ''manualOverrideStateExpiresAt'' = None
          \<and> (\<exists>d. fst (poll_decide e st w) = Inr d \<and> st' ''defaultState'' = Some d)
          \<and> (r = None \<longrightarrow> st' ''currentState'' = st' ''defaultState''))
       \<and> (r = None \<longrightarrow> state_file w' = Some st')"
proof -
  obtain res st3 w1 where d: "poll_decide e st w = (res, st3, w1)"
    by (cases "poll_decide e st w")
  from home run d show ?thesis
  proof (cases rule: priv_poll_after_decide)
    case (decide_raises err)
    with d r poll_decide_err show ?thesis by blast
  next
    case (no_key desired)
    with r show ?thesis by (simp add: reached_switch_def)
  next
    case same
    then obtain cur where cur: "st3 ''currentState'' = Some cur" "res = Inr cur" by auto
    from poll_decide_override[OF d[unfolded cur(2)] m t] d same cur
    show ?thesis by (auto simp: write_state_simps)
  next
    case (raised desired cur err evs)
    from poll_decide_override[OF d[unfolded raised(1)] m t] d raised
    show ?thesis by auto
  next
    case (switched desired cur evs w2)
    from poll_decide_override[OF d[unfolded switched(1)] m t] d switched
    show ?thesis by (auto simp: write_state_simps)
  qed
qed

theorem manual_override_precedence_witness:
  "ssid home_env = Some HOME_SSID
   \<and> priv_poll home_env override_status world0 =
       (None, override_status(''currentState'' \<mapsto> JBool True),
        \<lparr>state_file = Some (override_status(''currentState'' \<mapsto> JBool True)),
         log = [Battery, Ping, TurnOn,
                Write (override_status(''currentState'' \<mapsto> JBool True))]\<rparr>)
   \<and> reached_switch None
   \<and> override_status ''manualOverrideState'' = Some (JBool True)
   \<and> read_time home_env override_status ''manualOverrideStateExpiresAt'' = Inr 86405000000
   \<and> now home_env < 86405000000
   \<and> fst (poll_decide home_env override_status world0) = Inr (JBool True)
   \<and> (override_status(''currentState'' \<mapsto> JBool True)) ''currentState'' = Some (JBool True)"
proof -
  have run: "priv_poll home_env override_status world0 =
       (None, override_status(''currentState'' \<mapsto> JBool True),
        \<lparr>state_file = Some (override_status(''currentState'' \<mapsto> JBool True)),
         log = [Battery, Ping, TurnOn,
                Write (override_status(''currentState'' \<mapsto> JBool True))]\<rparr>)"
    by (simp add: poll_defs example_defs)
  have hyps: "ssid home_env = Some HOME_SSID" "reached_switch None"
    "override_status ''manualOverrideState'' = Some (JBool True)"
    "read_time home_env override_status ''manualOverrideStateExpiresAt'' = Inr 86405000000"
    by (simp_all add: example_defs HOME_SSID_def reached_switch_def read_time_def)
  have "now home_env < 86405000000" by (simp add: home_env_def)
  with manual_override_precedence[OF hyps(1) run hyps(2-4)] run hyps show ?thesis by simp
qed

text \<open>
  Claim C3, the keep-window gates the hysteresis. On the home network, with
  \<open>keepStateUntil = t\<close>: while \<open>now < t\<close> the battery is not read and \<open>defaultState\<close>
  and \<open>keepStateUntil\<close> are unchanged, whatever the battery level; once \<open>now \<ge> t\<close>
  (the override fields being readable, so that the step is reached) \<open>keepStateUntil\<close>
  is removed, the battery is read, and \<open>defaultState\<close> follows the thresholds in this
  same reconciliation.
\<close>

theorem keep_window_gating:
  assumes home: "ssid e = Some HOME_SSID"
    and run: "priv_poll e st w = (r, st', w')"
    and k: "read_time e st ''keepStateUntil'' = Inr t"
  shows "(now e < t \<longrightarrow>
            \<not> battery_queried w w'
          \<and> st' ''defaultState'' = st ''defaultState''
          \<and> st' ''keepStateUntil'' = st ''keepStateUntil'')
       \<and> (t \<le> now e \<and> override_readable e st \<longrightarrow>
            st' ''keepStateUntil'' = None
          \<and> battery_queried w w'
          \<and> (\<forall>b v. battery e = Some b \<and> st ''defaultState'' = Some v \<longrightarrow>
                st' ''defaultState'' = Some (hysteresis v b)))"
proof -
  obtain res st3 w1 where d: "poll_decide e st w = (res, st3, w1)"
    by (cases "poll_decide e st w")
  from after_decide_frame(2)[OF home run d] obtain post
    where post: "log w' = log w1 @ post" "\<not> list_ex is_battery_event post" by blast
  have fr: "st' ''defaultState'' = st3 ''defaultState''"
    "st' ''keepStateUntil'' = st3 ''keepStateUntil''"
    using after_decide_frame(1)[OF home run d] by simp_all
  have active: "\<not> battery_queried w w' \<and> st' ''defaultState'' = st ''defaultState''
      \<and> st' ''keepStateUntil'' = st ''keepStateUntil''" if "now e < t"
  proof -
    note a = decide_keep_active[OF d k that]
    from post a(1) have "battery_queried w w' = list_ex is_battery_event post"
      by (simp add: new_events_simps)
    with post(2) fr a show ?thesis by simp
  qed
  have expired: "st' ''keepStateUntil'' = None \<and> battery_queried w w'
      \<and> (\<forall>b v. battery e = Some b \<and> st ''defaultState'' = Some v \<longrightarrow>
            st' ''defaultState'' = Some (hysteresis v b))"
    if "t \<le> now e" "override_readable e st"
  proof -
    note x = decide_keep_expired[OF d k that]
    from post x(1) have "log w' = log w @ Battery # post" by (simp add: emit_def)
    then have "battery_queried w w'" by (simp add: new_events_simps)
    with fr x(2) x(3) show ?thesis by auto
  qed
  from active expired show ?thesis by blast
qed

theorem keep_window_gating_witness:
  "ssid home_env = Some HOME_SSID
   \<and> priv_poll home_env pinned_status world0 =
       (None, pinned_status, \<lparr>state_file = Some pinned_status, log = [Write pinned_status]\<rparr>)
   \<and> read_time home_env pinned_status ''keepStateUntil'' = Inr 10000000
   \<and> now home_env < 10000000
   \<and> battery home_env = Some 80
   \<and> \<not> battery_queried world0
         \<lparr>state_file = Some pinned_status, log = [Write pinned_status]\<rparr>
   \<and> pinned_status ''defaultState'' = Some (JBool True)"
proof -
  have run: "priv_poll home_env pinned_status world0 =
       (None, pinned_status, \<lparr>state_file = Some pinned_status, log = [Write pinned_status]\<rparr>)"
    by (simp add: poll_defs example_defs)
  have hyps: "ssid home_env = Some HOME_SSID"
    "read_time home_env pinned_status ''keepStateUntil'' = Inr 10000000"
    by (simp_all add: example_defs HOME_SSID_def read_time_def)
  have more: "now home_env < 10000000" "battery home_env = Some 80"
    "pinned_status ''defaultState'' = Some (JBool True)"
    by (simp_all add: example_defs)
  with keep_window_gating[OF hyps(1) run hyps(2)] run hyps show ?thesis by simp
qed

text \<open>
  Claim C4, the driver call. On the home network, with \<open>currentState = c\<close>: the
  driver (\<open>_turn_on\<close> or \<open>_turn_off\<close>, which pings the plug before it sends the
  switch command) is called exactly when the desired state was computed and differs
  from \<open>c\<close>. When it is called, its events are one to three pings followed by the one
  switch command the desired state calls for, except that after three failed pings
  (\<open>RuntimeError\<close>) no command is sent; the reconciliation returns only when that
  command succeeded. When the reconciliation returns, \<open>currentState\<close> is the desired
  state and the record is written to the state file; when it raises, \<open>currentState\<close>
  is still \<open>c\<close>, and the state file is neither written nor changed.
\<close>

theorem driver_call_iff:
  assumes home: "ssid e = Some HOME_SSID"
    and run: "priv_poll e st w = (r, st', w')"
    and cur: "st ''currentState'' = Some c"
  shows "(case fst (poll_decide e st w) of
            Inl err \<Rightarrow> \<not> driver_invoked w w'
          | Inr desired \<Rightarrow>
              (driver_invoked w w' \<longleftrightarrow> desired \<noteq> c)
              \<and> (r = None \<longrightarrow> st' ''currentState'' = Some desired)
              \<and> (desired \<noteq> c \<longrightarrow>
                    (\<exists>k. 1 \<le> k \<and> k \<le> 3
                       \<and> driver_events w w' =
                           replicate k Ping
                           @ (if r = Some RuntimeError then [] else [switch_command desired])
                       \<and> (r = Some RuntimeError \<longrightarrow> k = 3))
                  \<and> (r = None \<longrightarrow> switch_ok e)
                  \<and> (r = Some PlugError \<longrightarrow> \<not> switch_ok e)))
       \<and> (r = None \<longrightarrow> state_file w' = Some st' \<and> state_written w w')
       \<and> (r \<noteq> None \<longrightarrow>
            st' ''currentState'' = Some c \<and> state_file w' = state_file w
            \<and> \<not> state_written w w')"
proof -
  obtain res st3 w1 where d: "poll_decide e st w = (res, st3, w1)"
    by (cases "poll_decide e st w")
  from poll_decide_frame[OF d] cur
  have fr: "st3 ''currentState'' = Some c" "state_file w1 = state_file w" by simp_all
  from d obtain pre where pre: "log w1 = log w @ pre" "pre = [] \<or> pre = [Battery]"
    by (rule decide_log)
  have calls: "(case res of
            Inl err \<Rightarrow> \<not> driver_invoked w w'
          | Inr desired \<Rightarrow>
              (driver_invoked w w' \<longleftrightarrow> desired \<noteq> c)
              \<and> (r = None \<longrightarrow> st' ''currentState'' = Some desired))
       \<and> (r = None \<longrightarrow> state_file w' = Some st' \<and> state_written w w')
       \<and> (r \<noteq> None \<longrightarrow>
            st' ''currentState'' = Some c \<and> state_file w' = state_file w
            \<and> \<not> state_written w w')"
    using home run d
  proof (cases rule: priv_poll_after_decide)
    case (decide_raises err)
    with fr pre new_events_simps[of w' w pre] show ?thesis by auto
  next
    case (no_key desired)
    with fr show ?thesis by simp
  next
    case same
    have "log w' = log w @ pre @ [Write st3]" using same pre by (simp add: write_state_simps)
    with fr pre same new_events_simps[of w' w "pre @ [Write st3]"] show ?thesis
      by (auto simp: write_state_simps)
  next
    case (raised desired cur' err evs)
    have "log w' = log w @ pre @ Ping # evs" using raised pre by simp
    with fr pre raised new_events_simps[of w' w "pre @ Ping # evs"] show ?thesis
      by (auto simp: list_all_iff list_ex_iff dest: driver_event_only)
  next
    case (switched desired cur' evs w2)
    have "log w' = log w @ pre @ Ping # evs @ [Write st']" using switched pre
      by (simp add: write_state_simps)
    with fr pre switched new_events_simps[of w' w "pre @ Ping # evs @ [Write st']"]
    show ?thesis by (auto simp: write_state_simps)
  qed
  show ?thesis
  proof (cases res)
    case (Inl err)
    with calls d show ?thesis by simp
  next
    case (Inr desired)
    note ev = poll_driver_events[OF home run d[unfolded Inr] cur]
    from calls d Inr ev show ?thesis by simp
  qed
qed

theorem driver_call_iff_witness:
  "ssid unreachable_env = Some HOME_SSID
   \<and> priv_poll unreachable_env priv_default_state world0 =
       (Some RuntimeError, priv_default_state(''defaultState'' \<mapsto> JBool False),
        \<lparr>state_file = None, log = [Battery, Ping, Ping, Ping]\<rparr>)
   \<and> priv_default_state ''currentState'' = Some (JBool True)
   \<and> fst (poll_decide unreachable_env priv_default_state world0) = Inr (JBool False)
   \<and> driver_invoked world0 \<lparr>state_file = None, log = [Battery, Ping, Ping, Ping]\<rparr>
   \<and> driver_events world0 \<lparr>state_file = None, log = [Battery, Ping, Ping, Ping]\<rparr>
       = [Ping, Ping, Ping]
   \<and> (priv_default_state(''defaultState'' \<mapsto> JBool False)) ''currentState''
       = Some (JBool True)
   \<and> \<not> state_written world0 \<lparr>state_file = None, log = [Battery, Ping, Ping, Ping]\<rparr>
   \<and> ssid home_env = Some HOME_SSID
   \<and> priv_poll home_env override_status world0 =
       (None, override_status(''currentState'' \<mapsto> JBool True),
        \<lparr>state_file = Some (override_status(''currentState'' \<mapsto> JBool True)),
         log = [Battery, Ping, TurnOn,
                Write (override_status(''currentState'' \<mapsto> JBool True))]\<rparr>)
   \<and> override_status ''currentState'' = Some (JBool False)
   \<and> fst (poll_decide home_env override_status world0) = Inr (JBool True)
   \<and> switch_ok home_env
   \<and> driver_events world0
        \<lparr>state_file = Some (override_status(''currentState'' \<mapsto> JBool True)),
         log = [Battery, Ping, TurnOn,
                Write (override_status(''currentState'' \<mapsto> JBool True))]\<rparr>
       = [Ping, TurnOn]
   \<and> state_written world0
        \<lparr>state_file = Some (override_status(''currentState'' \<mapsto> JBool True)),
         log = [Battery, Ping, TurnOn,
                Write (override_status(''currentState'' \<mapsto> JBool True))]\<rparr>"
proof -
  have run: "priv_poll unreachable_env priv_default_state world0 =
       (Some RuntimeError, priv_default_state(''defaultState'' \<mapsto> JBool False),
        \<lparr>state_file = None, log = [Battery, Ping, Ping, Ping]\<rparr>)"
    by (simp add: poll_defs example_defs)
  have hyps: "ssid unreachable_env = Some HOME_SSID"
    "priv_default_state ''currentState'' = Some (JBool True)"
    by (simp_all add: example_defs HOME_SSID_def)
  have dec: "fst (poll_decide unreachable_env priv_default_state world0) = Inr (JBool False)"
    by (simp add: poll_defs example_defs)
  have ev: "driver_events world0 \<lparr>state_file = None, log = [Battery, Ping, Ping, Ping]\<rparr>
       = [Ping, Ping, Ping]"
    by (simp add: driver_events_def new_events_def world0_def)
  have run2: "priv_poll home_env override_status world0 =
       (None, override_status(''currentState'' \<mapsto> JBool True),
        \<lparr>state_file = Some (override_status(''currentState'' \<mapsto> JBool True)),
         log = [Battery, Ping, TurnOn,
                Write (override_status(''currentState'' \<mapsto> JBool True))]\<rparr>)"
    by (simp add: poll_defs example_defs)
  have hyps2: "ssid home_env = Some HOME_SSID"
    "override_status ''currentState'' = Some (JBool False)"
    by (simp_all add: example_defs HOME_SSID_def)
  have dec2: "fst (poll_decide home_env override_status world0) = Inr (JBool True)"
    by (simp add: poll_defs example_defs)
  have ev2: "driver_events world0
        \<lparr>state_file = Some (override_status(''currentState'' \<mapsto> JBool True)),
         log = [Battery, Ping, TurnOn,
                Write (override_status(''currentState'' \<mapsto> JBool True))]\<rparr>
       = [Ping, TurnOn]"
    by (simp add: driver_events_def new_events_def world0_def)
  from driver_call_iff[OF hyps(1) run hyps(2)] driver_call_iff[OF hyps2(1) run2 hyps2(2)]
    run hyps dec ev run2 hyps2 dec2 ev2
  show ?thesis by (simp add: numeral_3_eq_3)
qed

text \<open>
  Claim C6, the presence guard. When the network name is not the home one (also when
  there is none), the reconciliation returns with the record it was given, unchanged,
  and its only effect is to write that record to the state file: no battery read, no
  expiry, no driver call.
\<close>

theorem presence_guard_short_circuit:
  assumes "ssid e \<noteq> Some HOME_SSID"
  shows "priv_poll e st w = (None, st, w\<lparr>state_file := Some st, log := log w @ [Write st]\<rparr>)
       \<and> new_events w (snd (snd (priv_poll e st w))) = [Write st]"
  using assms by (simp add: priv_poll_def priv_write_state_def emit_def new_events_def)

theorem presence_guard_short_circuit_witness:
  "ssid away_env \<noteq> Some HOME_SSID
   \<and> read_time away_env override_status ''manualOverrideStateExpiresAt'' = Inr 86405000000
   \<and> 86405000000 \<le> now away_env
   \<and> priv_poll away_env override_status world0 =
       (None, override_status,
        \<lparr>state_file = Some override_status, log = [Write override_status]\<rparr>)"
proof -
  have away: "ssid away_env \<noteq> Some HOME_SSID" by (simp add: away_env_def)
  have "world0\<lparr>state_file := Some override_status, log := log world0 @ [Write override_status]\<rparr>
      = \<lparr>state_file = Some override_status, log = [Write override_status]\<rparr>"
    by (simp add: world0_def)
  with presence_guard_short_circuit[OF away, of override_status world0] away show ?thesis
    by (simp add: away_env_def example_defs read_time_def)
qed

text \<open>
  Claim C7, idempotence. After a reconciliation that returned, a second one in the same
  surroundings, on the record the first one persisted, returns with the same record,
  writes it again and does not call the driver.
\<close>

theorem reconciliation_idempotent:
  assumes run: "priv_poll e st w = (None, st1, w1)"
  shows "state_file w1 = Some st1
       \<and> (\<exists>w2. priv_poll e (priv_read_state w1) w1 = (None, st1, w2)
              \<and> state_file w2 = Some st1 \<and> \<not> driver_invoked w1 w2)"
proof (cases "ssid e = Some HOME_SSID")
  case False
  with run have "st1 = st" "w1 = priv_write_state st w" by (auto simp: priv_poll_def)
  with False show ?thesis
    by (simp add: priv_poll_def priv_read_state_def priv_write_state_def emit_def
        driver_invoked_def new_events_def)
next
  case home: True
  obtain res st3 wd where d: "poll_decide e st w = (res, st3, wd)"
    by (cases "poll_decide e st w")
  have "state_file w1 = Some st1
      \<and> (\<exists>desired. res = Inr desired \<and> st1 = st3(''currentState'' \<mapsto> desired))"
    using home run d
  proof (cases rule: priv_poll_after_decide)
    case same
    then obtain cur where "st3 ''currentState'' = Some cur" "res = Inr cur" by auto
    with same map_upd_triv[of st3 "''currentState''" cur] show ?thesis
      by (simp add: write_state_simps)
  next
    case (switched desired cur evs w2)
    then show ?thesis by (simp add: write_state_simps)
  qed simp_all
  then obtain desired where persisted: "state_file w1 = Some st1"
    and dd: "poll_decide e st w = (Inr desired, st3, wd)"
    and st1: "st1 = st3(''currentState'' \<mapsto> desired)" using d by blast
  from poll_decide_idem[OF dd, of w1] obtain w2
    where d2: "poll_decide e st3 w1 = (Inr desired, st3, w2)"
      and w2: "w2 = w1 \<or> w2 = emit Battery w1" by blast
  from poll_decide_cur[OF d2, of desired] st1
  have d3: "poll_decide e st1 w1 = (Inr desired, st1, w2)" by simp
  have sw: "poll_switch e desired st1 w2 = (Inr st1, w2)"
    using st1 by (simp add: poll_switch_def)
  from home d3 sw have run2: "priv_poll e st1 w1 = (None, st1, priv_write_state st1 w2)"
    by (simp add: priv_poll_def)
  from w2 have "\<not> driver_invoked w1 (priv_write_state st1 w2)"
    by (auto simp: driver_invoked_def new_events_def priv_write_state_def emit_def)
  with run2 persisted show ?thesis
    by (simp add: priv_read_state_def write_state_simps)
qed

theorem reconciliation_idempotent_witness:
  "priv_poll home_env priv_default_state world0 =
       (None, [''currentState'' \<mapsto> JBool False, ''defaultState'' \<mapsto> JBool False],
        \<lparr>state_file = Some [''currentState'' \<mapsto> JBool False, ''defaultState'' \<mapsto> JBool False],
         log = [Battery, Ping, TurnOff,
                Write [''currentState'' \<mapsto> JBool False, ''defaultState'' \<mapsto> JBool False]]\<rparr>)
   \<and> (\<exists>w2. priv_poll home_env [''currentState'' \<mapsto> JBool False, ''defaultState'' \<mapsto> JBool False]
          \<lparr>state_file = Some [''currentState'' \<mapsto> JBool False, ''defaultState'' \<mapsto> JBool False],
           log = [Battery, Ping, TurnOff,
                Write [''currentState'' \<mapsto> JBool False, ''defaultState'' \<mapsto> JBool False]]\<rparr>
        = (None, [''currentState'' \<mapsto> JBool False, ''defaultState'' \<mapsto> JBool False], w2)
        \<and> \<not> driver_invoked
          \<lparr>state_file = Some [''currentState'' \<mapsto> JBool False, ''defaultState'' \<mapsto> JBool False],
           log = [Battery, Ping, TurnOff,
                Write [''currentState'' \<mapsto> JBool False, ''defaultState'' \<mapsto> JBool False]]\<rparr> w2)"
proof -
  have run: "priv_poll home_env priv_default_state world0 =
       (None, [''currentState'' \<mapsto> JBool False, ''defaultState'' \<mapsto> JBool False],
        \<lparr>state_file = Some [''currentState'' \<mapsto> JBool False, ''defaultState'' \<mapsto> JBool False],
         log = [Battery, Ping, TurnOff,
                Write [''currentState'' \<mapsto> JBool False, ''defaultState'' \<mapsto> JBool False]]\<rparr>)"
    by (simp add: poll_defs example_defs fun_upd_twist)
  from reconciliation_idempotent[OF run] run show ?thesis
    by (auto simp: priv_read_state_def)
qed

text \<open>
  Claim C10, no missing field. On a record that has \<open>currentState\<close> and
  \<open>defaultState\<close> and whose override fields are paired, the reconciliation never
  raises \<open>KeyError\<close>.
\<close>

theorem poll_no_missing_field:
  assumes cur: "''currentState'' \<in> dom st"
    and dflt: "''defaultState'' \<in> dom st"
    and p: "paired st"
  shows "fst (priv_poll e st w) \<noteq> Some (KeyError k)"
proof (cases "ssid e = Some HOME_SSID")
  case False
  then show ?thesis by (simp add: priv_poll_def)
next
  case home: True
  obtain r st' w' where run: "priv_poll e st w = (r, st', w')"
    by (cases "priv_poll e st w")
  obtain res st3 w1 where d: "poll_decide e st w = (res, st3, w1)"
    by (cases "poll_decide e st w")
  from home run d have "r \<noteq> Some (KeyError k)"
  proof (cases rule: priv_poll_after_decide)
    case (decide_raises err)
    with poll_decide_key_error[of e st w k st3 w1] d p dflt show ?thesis by auto
  next
    case (no_key desired)
    with poll_decide_frame(1)[OF d] cur show ?thesis by auto
  next
    case (raised desired c err evs)
    then show ?thesis by auto
  qed simp_all
  with run show ?thesis by simp
qed

theorem poll_no_missing_field_witness:
  "''currentState'' \<in> dom override_status \<and> ''defaultState'' \<in> dom override_status
   \<and> paired override_status
   \<and> fst (priv_poll home_env override_status world0) \<noteq> Some (KeyError ''manualOverrideStateExpiresAt'')"
proof -
  have hyps: "''currentState'' \<in> dom override_status" "''defaultState'' \<in> dom override_status"
    "paired override_status"
    by (simp_all add: override_status_def paired_def)
  from poll_no_missing_field[OF hyps] hyps show ?thesis by simp
qed

text \<open>
  The pairing is needed: a record with \<open>manualOverrideState\<close> alone stops the
  reconciliation with a \<open>KeyError\<close>, nothing read and nothing written.
\<close>

lemma unpaired_record_raises:
  "priv_poll home_env (priv_default_state(''manualOverrideState'' \<mapsto> JBool True)) world0 =
     (Some (KeyError ''manualOverrideStateExpiresAt''),
      priv_default_state(''manualOverrideState'' \<mapsto> JBool True), world0)"
  by (simp add: poll_defs example_defs)

text \<open>
  Claim C5, the optimistic lock of \<open>poll\<close>. The claim is that it fails at once when
  the lock is held. \<open>_optimistic_lock\<close> builds its \<open>SoftFileLock\<close> with no timeout,
  so the lock waits: with the lock held through the first three attempts, the
  acquisition sleeps three times and then takes the lock, and \<open>poll\<close> goes on to
  reconcile; no \<open>Timeout\<close> is raised.
\<close>

theorem optimistic_lock_waits:
  "lock_held busy_env (length (log world0))
   \<and> acquire busy_env priv_optimistic_lock world0 =
       Some (None, \<lparr>state_file = None, log = [Sleep, Sleep, Sleep, Acquire]\<rparr>)
   \<and> poll busy_env world0 =
       Some (None,
         \<lparr>state_file = Some [''currentState'' \<mapsto> JBool False, ''defaultState'' \<mapsto> JBool False],
          log = [Sleep, Sleep, Sleep, Acquire, Battery, Ping, TurnOff,
                 Write [''currentState'' \<mapsto> JBool False, ''defaultState'' \<mapsto> JBool False],
                 Release]\<rparr>)"
  by (simp add: busy_env_def example_defs lock_defs poll_def poll_defs acquire_loop.simps
      fun_upd_twist)

text \<open>
  Claim C8, \<open>prepare_for_sleep\<close>. With a battery reading \<open>b\<close> and a lock that is
  acquired: the battery is read before the lock is taken; the operation then is the
  reconciliation of the record read from the state file with \<open>defaultState\<close> set to
  \<open>b \<le> 30\<close> and \<open>keepStateUntil\<close> set to the ISO form of now plus two minutes,
  followed by the release of the lock. At home, when the reconciliation starts within
  those two minutes and returns, the state file holds these two values.
\<close>

theorem prepare_for_sleep_behaviour:
  assumes b: "sleep_battery e = Some b"
    and acq: "acquire e priv_lock (emit Battery w) = Some (None, wl)"
  shows "prepare_for_sleep e w =
           Some (case priv_poll e
                        ((priv_read_state wl)
                           (''defaultState'' \<mapsto> JBool (b \<le> 30),
                            ''keepStateUntil'' \<mapsto> JStr (isoformat e (op_now e + 120000000))))
                        wl of
                   (r, st', w') \<Rightarrow> (r, emit Release w'))
       \<and> state_file wl = state_file w
       \<and> (\<exists>n. log wl = log w @ Battery # replicate n Sleep @ [Acquire])
       \<and> (ssid e = Some HOME_SSID
            \<and> fromisoformat e (isoformat e (op_now e + 120000000)) = Some (op_now e + 120000000)
            \<and> now e < op_now e + 120000000 \<longrightarrow>
          (\<forall>w'. prepare_for_sleep e w = Some (None, w') \<longrightarrow>
             (\<exists>st'. state_file w' = Some st'
                \<and> st' ''defaultState'' = Some (JBool (b \<le> 30))
                \<and> st' ''keepStateUntil'' = Some (JStr (isoformat e (op_now e + 120000000))))))"
proof -
  let ?st = "(priv_read_state wl)
               (''defaultState'' \<mapsto> JBool (b \<le> 30),
                ''keepStateUntil'' \<mapsto> JStr (isoformat e (op_now e + 120000000)))"
  obtain r st' w' where run: "priv_poll e ?st wl = (r, st', w')"
    by (cases "priv_poll e ?st wl")
  have eq: "prepare_for_sleep e w = Some (r, emit Release w')"
    using b acq run
    by (simp add: prepare_for_sleep_def with_lock_def poll_body_def Let_def
        SLEEP_CHARGE_THRESHOLD_def SLEEP_INTERVAL_def)
  note facts = acquire_loop_result[OF acq[unfolded acquire_def]]
  from facts(1) have same_file: "state_file wl = state_file w" by (simp add: emit_def)
  from facts(2) have lg: "\<exists>n. log wl = log w @ Battery # replicate n Sleep @ [Acquire]"
    by (simp add: emit_def)
  have e2e: "\<exists>st'. state_file w'' = Some st'
                \<and> st' ''defaultState'' = Some (JBool (b \<le> 30))
                \<and> st' ''keepStateUntil'' = Some (JStr (isoformat e (op_now e + 120000000)))"
    if home: "ssid e = Some HOME_SSID"
      and rt: "fromisoformat e (isoformat e (op_now e + 120000000)) = Some (op_now e + 120000000)"
      and a: "now e < op_now e + 120000000"
      and ret: "prepare_for_sleep e w = Some (None, w'')" for w''
  proof -
    from ret eq have r: "r = None" and w'': "w'' = emit Release w'" by simp_all
    obtain res st3 w1 where d: "poll_decide e ?st wl = (res, st3, w1)"
      by (cases "poll_decide e ?st wl")
    from rt have k: "read_time e ?st ''keepStateUntil'' = Inr (op_now e + 120000000)"
      by (simp add: read_time_def)
    note act = decide_keep_active[OF d k a]
    note fr = after_decide_frame(1)[OF home run d]
    from priv_poll_returns_persisted[OF run[unfolded r]] w''
    have "state_file w'' = Some st'" by (simp add: emit_def)
    moreover from act fr have "st' ''defaultState'' = Some (JBool (b \<le> 30))"
      "st' ''keepStateUntil'' = Some (JStr (isoformat e (op_now e + 120000000)))"
      by simp_all
    ultimately show ?thesis by simp
  qed
  from eq run same_file lg e2e show ?thesis by simp
qed

theorem prepare_for_sleep_behaviour_witness:
  "sleep_battery home_env = Some 80
   \<and> acquire home_env priv_lock (emit Battery world0) =
       Some (None, \<lparr>state_file = None, log = [Battery, Acquire]\<rparr>)
   \<and> ssid home_env = Some HOME_SSID
   \<and> fromisoformat home_env (isoformat home_env (op_now home_env + 120000000))
       = Some (op_now home_env + 120000000)
   \<and> now home_env < op_now home_env + 120000000
   \<and> prepare_for_sleep home_env world0 =
       Some (None, \<lparr>state_file = Some sleep_status,
                    log = [Battery, Acquire, Ping, TurnOff, Write sleep_status, Release]\<rparr>)
   \<and> sleep_status ''defaultState'' = Some (JBool False)"
proof -
  have b: "sleep_battery home_env = Some 80" by (simp add: home_env_def)
  have acq: "acquire home_env priv_lock (emit Battery world0) =
       Some (None, \<lparr>state_file = None, log = [Battery, Acquire]\<rparr>)"
    by (simp add: example_defs lock_defs emit_def acquire_loop.simps)
  have run: "priv_poll home_env
      ((priv_read_state \<lparr>state_file = None, log = [Battery, Acquire]\<rparr>)
         (''defaultState'' \<mapsto> JBool ((80::real) \<le> 30),
          ''keepStateUntil'' \<mapsto> JStr (isoformat home_env (op_now home_env + 120000000))))
      \<lparr>state_file = None, log = [Battery, Acquire]\<rparr>
    = (None, sleep_status,
       \<lparr>state_file = Some sleep_status,
        log = [Battery, Acquire, Ping, TurnOff, Write sleep_status]\<rparr>)"
    by (simp add: poll_defs example_defs priv_read_state_def sleep_status_def fun_upd_twist)
  have more: "ssid home_env = Some HOME_SSID"
    "fromisoformat home_env (isoformat home_env (op_now home_env + 120000000))
       = Some (op_now home_env + 120000000)"
    "now home_env < op_now home_env + 120000000"
    "sleep_status ''defaultState'' = Some (JBool False)"
    by (simp_all add: example_defs HOME_SSID_def sleep_status_def)
  from prepare_for_sleep_behaviour[OF b acq] run b acq more show ?thesis
    by (simp add: emit_def)
qed

text \<open>
  Claim C9, the paired override fields. The reconciliation step keeps
  \<open>manualOverrideState\<close> and \<open>manualOverrideStateExpiresAt\<close> both present or both
  absent, in the record and in the state file; so does every operation (\<open>poll\<close>,
  \<open>enable_manual_override\<close>, \<open>disable_manual_override\<close>, \<open>prepare_for_sleep\<close>,
  \<open>scan\<close>); and every state file reachable from a fresh installation has them paired.
\<close>

theorem paired_override_invariant:
  "(paired st \<longrightarrow> paired (fst (snd (priv_poll e st w))))
   \<and> (paired st \<and> persisted_paired w \<longrightarrow> persisted_paired (snd (snd (priv_poll e st w))))
   \<and> (persisted_paired w \<and> run opn e w = Some (r, w') \<longrightarrow> persisted_paired w')
   \<and> (reachable w \<longrightarrow> persisted_paired w)"
proof -
  obtain r0 st0 w0 where run: "priv_poll e st w = (r0, st0, w0)" by (cases "priv_poll e st w")
  have "paired st \<Longrightarrow> paired st0" using priv_poll_paired(1)[OF _ run] .
  moreover have "paired st \<Longrightarrow> persisted_paired w \<Longrightarrow> persisted_paired w0"
    using priv_poll_paired[OF _ run] by (auto simp: persisted_paired_def)
  ultimately show ?thesis using run run_paired reachable_paired by auto
qed

theorem paired_override_invariant_witness:
  "paired override_status \<and> persisted_paired world0 \<and> reachable world0
   \<and> run EnableOverride home_env world0 =
       Some (None, \<lparr>state_file = Some enabled_status,
                    log = [Acquire, Battery, Write enabled_status, Release]\<rparr>)
   \<and> persisted_paired \<lparr>state_file = Some enabled_status,
                         log = [Acquire, Battery, Write enabled_status, Release]\<rparr>
   \<and> paired (fst (snd (priv_poll home_env override_status world0)))"
proof -
  have hyps: "paired override_status" "persisted_paired world0"
    by (simp_all add: paired_def override_status_def persisted_paired_def world0_def)
  have r0: "reachable world0" unfolding world0_def by (rule reachable.initial)
  have run: "run EnableOverride home_env world0 =
       Some (None, \<lparr>state_file = Some enabled_status,
                    log = [Acquire, Battery, Write enabled_status, Release]\<rparr>)"
    by (simp add: enable_manual_override_def MANUAL_OVERRIDE_INTERVAL_def lock_defs
        poll_defs example_defs acquire_loop.simps enabled_status_def fun_upd_twist)
  from paired_override_invariant[of override_status home_env world0 EnableOverride None
      "\<lparr>state_file = Some enabled_status,
        log = [Acquire, Battery, Write enabled_status, Release]\<rparr>"]
    hyps r0 run
  show ?thesis by simp
qed

end
